theory Spec2Isabelle
  imports Complex_Main
begin

section \<open>Data model (neo4j_client.py)\<close>

text \<open>
  Python values that travel in parameter and result dictionaries. A float is modelled by
  a rational: only the order of scores matters below, and it is the same on the finite
  floats. A dictionary is an association list with string keys.
\<close>

type_synonym instant = nat

datatype pyval = PNone | PBool bool | PInt int | PFloat rat | PStr string | PDateTime instant

type_synonym dict = "(string \<times> pyval) list"

text \<open>
  \<^verbatim>\<open>@dataclass class CompanyEntity\<close>: eight fields, the last four optional. The class has
  no \<^verbatim>\<open>__post_init__\<close>; the generated constructor stores its arguments.
\<close>

record CompanyEntity =
  permid :: int
  name :: string
  is_final_assembler :: bool
  match_score :: rat
  industry_sector :: "string option"
  country :: "string option"
  market_cap :: "int option"
  revenue :: "int option"

record RelationshipData =
  source_name :: string
  target_name :: string
  relationship_type :: string
  properties :: dict

text \<open>
  Exceptions. \<^verbatim>\<open>ServiceUnavailable\<close> and \<^verbatim>\<open>TransientError\<close> are the two classes named
  in the retry decorator; the other kinds stand for the remaining driver and store errors.
  Every one of them is a subclass of \<^verbatim>\<open>Exception\<close>. The string is \<^verbatim>\<open>str(e)\<close>.
\<close>

datatype exc_kind = ServiceUnavailable | TransientError | CypherSyntaxError | ConstraintError
  | TypeError | KeyError | OtherError

datatype exc = Exc exc_kind string

fun str_exc :: "exc \<Rightarrow> string" where
  "str_exc (Exc k m) = m"

fun kind_of :: "exc \<Rightarrow> exc_kind" where
  "kind_of (Exc k m) = k"

definition CompanyEntity_init ::
  "int \<Rightarrow> string \<Rightarrow> bool \<Rightarrow> rat \<Rightarrow> string option \<Rightarrow> string option \<Rightarrow> int option \<Rightarrow> int option
     \<Rightarrow> exc + CompanyEntity" where
  "CompanyEntity_init p n f m sec ctry cap rv =
     Inr \<lparr>permid = p, name = n, is_final_assembler = f, match_score = m,
          industry_sector = sec, country = ctry, market_cap = cap, revenue = rv\<rparr>"

section \<open>The graph store\<close>

text \<open>
  A Company node carries the properties the two MERGE statements set: those of the entity,
  and \<^verbatim>\<open>ingestion_date\<close>, \<^verbatim>\<open>created_by\<close> (on create) and \<^verbatim>\<open>last_updated\<close> (on match).
  A node is identified by its position in the node list; no modelled statement deletes a
  node. An edge names its endpoints by position and carries a type and a property map.
\<close>

record company_node = CompanyEntity +
  ingestion_date :: instant
  created_by :: string
  last_updated :: "instant option"

record edge =
  src :: nat
  tgt :: nat
  rel_type :: string
  props :: dict

record graph =
  nodes :: "company_node list"
  edges :: "edge list"

text \<open>A Cypher statement is modelled by its meaning on the graph at an instant.\<close>

type_synonym statement = "instant \<Rightarrow> graph \<Rightarrow> exc + (dict list \<times> graph)"

text \<open>
  What the store does at its \<open>i\<close>-th statement: the instant \<^verbatim>\<open>datetime()\<close> yields in that
  statement, and the exception the driver raises instead of running it, if any (the store
  is down, a constraint fails, or the driver refuses a parameter, such as an integer that
  does not fit 64 bits).

  \<^verbatim>\<open>create_relationship\<close> splices the relationship type into its statement text. When the
  type is not a plain identifier the text is no longer the MERGE written in the source: it
  may be malformed, or well-formed with another meaning, or carry further clauses. What
  the store makes of such a text is \<open>spliced\<close>, about which nothing is assumed.
\<close>

record store_env =
  instant_of :: "nat \<Rightarrow> instant"
  fault :: "nat \<Rightarrow> exc option"
  spliced :: "RelationshipData \<Rightarrow> statement"

text \<open>
  The client and the store behind it: the graph, the number of statements submitted so
  far, the client's \<^verbatim>\<open>query_count\<close>, and the delays handed to \<^verbatim>\<open>time.sleep\<close>.
\<close>

record client_state =
  store :: graph
  runs :: nat
  query_count :: nat
  slept :: "nat list"

section \<open>Running statements\<close>

text \<open>
  \<^verbatim>\<open>session.run\<close> / \<^verbatim>\<open>tx.run\<close>: the statement takes effect as a whole or raises and
  leaves the graph as it was.
\<close>

definition session_run :: "store_env \<Rightarrow> statement \<Rightarrow> client_state \<Rightarrow> (exc + dict list) \<times> client_state" where
  "session_run env q s =
     (let i = runs s; s1 = s\<lparr>runs := Suc i\<rparr> in
      case fault env i of
        Some e \<Rightarrow> (Inl e, s1)
      | None \<Rightarrow>
          (case q (instant_of env i) (store s) of
             Inl e \<Rightarrow> (Inl e, s1)
           | Inr (rows, g) \<Rightarrow> (Inr rows, s1\<lparr>store := g\<rparr>)))"

text \<open>
  The body of \<^verbatim>\<open>async def execute_query\<close>: one run; on success the counter is bumped, on
  an exception it is logged and raised again.
\<close>

definition execute_query_body ::
  "store_env \<Rightarrow> statement \<Rightarrow> client_state \<Rightarrow> (exc + dict list) \<times> client_state" where
  "execute_query_body env q s =
     (case session_run env q s of
        (Inr records, s') \<Rightarrow> (Inr records, s'\<lparr>query_count := query_count s' + 1\<rparr>)
      | (Inl e, s') \<Rightarrow> (Inl e, s'))"

text \<open>
  \<^verbatim>\<open>@retry(exceptions=(ServiceUnavailable, TransientError), tries=3, delay=2, backoff=2)\<close>.
  The decorator of the \<^verbatim>\<open>retry\<close> package is a plain (synchronous) wrapper around
  \<^verbatim>\<open>__retry_internal\<close>:
  \<^verbatim>\<open>
    _tries, _delay = tries, delay
    while _tries:
        try:
            return f()
        except exceptions as e:
            _tries -= 1
            if not _tries:
                raise
            time.sleep(_delay)
            _delay *= backoff
  \<close>
  It returns \<^verbatim>\<open>None\<close> when the loop is never entered.
\<close>

definition retryable :: "exc \<Rightarrow> bool" where
  "retryable e = (kind_of e = ServiceUnavailable \<or> kind_of e = TransientError)"

fun retry_internal ::
  "(client_state \<Rightarrow> (exc + 'a) \<times> client_state) \<Rightarrow> nat \<Rightarrow> nat \<Rightarrow> nat \<Rightarrow> client_state
     \<Rightarrow> (exc + 'a option) \<times> client_state" where
  "retry_internal f 0 delay backoff s = (Inr None, s)"
| "retry_internal f (Suc n) delay backoff s =
     (case f s of
        (Inr v, s') \<Rightarrow> (Inr (Some v), s')
      | (Inl e, s') \<Rightarrow>
          if retryable e then
            (if n = 0 then (Inl e, s')
             else retry_internal f n (delay * backoff) backoff (s'\<lparr>slept := slept s' @ [delay]\<rparr>))
          else (Inl e, s'))"

text \<open>
  \<^verbatim>\<open>execute_query\<close> as the module exports it. The decorated function is a coroutine
  function: the call \<^verbatim>\<open>f()\<close> inside the wrapper builds the coroutine object and returns
  it without running any of the body, so it raises nothing; the caller's \<^verbatim>\<open>await\<close> then
  runs the body.
\<close>

definition execute_query ::
  "store_env \<Rightarrow> statement \<Rightarrow> client_state \<Rightarrow> (exc + dict list) \<times> client_state" where
  "execute_query env q s =
     (case retry_internal (\<lambda>s0. (Inr (execute_query_body env q), s0)) 3 2 2 s of
        (Inl e, s') \<Rightarrow> (Inl e, s')
      | (Inr None, s') \<Rightarrow> (Inl (Exc TypeError ''NoneType is not awaitable''), s')
      | (Inr (Some coro), s') \<Rightarrow> coro s')"

text \<open>
  \<^verbatim>\<open>execute_write_transaction\<close>: \<^verbatim>\<open>tx_function\<close> runs the statements in order, each
  seeing the writes of the earlier ones; an exception leaves the managed transaction
  uncommitted, so the graph is the one before the call. A fault of the environment here is
  one that the driver's own handling of the managed transaction did not absorb.
\<close>

fun tx_function ::
  "store_env \<Rightarrow> statement list \<Rightarrow> client_state \<Rightarrow> (exc + dict list list) \<times> client_state" where
  "tx_function env [] s = (Inr [], s)"
| "tx_function env (q # qs) s =
     (case session_run env q s of
        (Inl e, s') \<Rightarrow> (Inl e, s')
      | (Inr records, s') \<Rightarrow>
          (case tx_function env qs s' of
             (Inl e, s'') \<Rightarrow> (Inl e, s'')
           | (Inr results, s'') \<Rightarrow> (Inr (records # results), s'')))"

definition execute_write_transaction ::
  "store_env \<Rightarrow> statement list \<Rightarrow> client_state \<Rightarrow> (exc + dict list list) \<times> client_state" where
  "execute_write_transaction env queries s =
     (case tx_function env queries s of
        (Inr results, s') \<Rightarrow> (Inr results, s')
      | (Inl e, s') \<Rightarrow> (Inl e, s'\<lparr>store := store s\<rparr>))"

section \<open>Entity ingestion\<close>

text \<open>
  \<^verbatim>\<open>MERGE (c:Company {permid: $permid}) ON CREATE SET ... ON MATCH SET ...\<close>.
  The two ingestion statements differ in the \<^verbatim>\<open>created_by\<close> tag only.
\<close>

definition on_create :: "string \<Rightarrow> instant \<Rightarrow> CompanyEntity \<Rightarrow> company_node" where
  "on_create tag now e =
     \<lparr>permid = permid e, name = name e, is_final_assembler = is_final_assembler e,
      match_score = match_score e, industry_sector = industry_sector e, country = country e,
      market_cap = market_cap e, revenue = revenue e,
      ingestion_date = now, created_by = tag, last_updated = None\<rparr>"

definition on_match :: "instant \<Rightarrow> CompanyEntity \<Rightarrow> company_node \<Rightarrow> company_node" where
  "on_match now e c =
     c\<lparr>match_score := (if match_score e > match_score c then match_score e else match_score c),
       last_updated := Some now\<rparr>"

definition merge_company :: "string \<Rightarrow> instant \<Rightarrow> CompanyEntity \<Rightarrow> company_node list \<Rightarrow> company_node list" where
  "merge_company tag now e ns =
     (if list_ex (\<lambda>c. permid c = permid e) ns
      then map (\<lambda>c. if permid c = permid e then on_match now e c else c) ns
      else ns @ [on_create tag now e])"

text \<open>The nodes bound to \<open>c\<close> after the MERGE: the matched ones, or the one created.\<close>

definition merged_nodes :: "string \<Rightarrow> instant \<Rightarrow> CompanyEntity \<Rightarrow> company_node list \<Rightarrow> company_node list" where
  "merged_nodes tag now e ns = filter (\<lambda>c. permid c = permid e) (merge_company tag now e ns)"

definition ingest_query :: "CompanyEntity \<Rightarrow> statement" where
  "ingest_query company now g =
     Inr (map (\<lambda>c. [(''permid'', PInt (permid c)), (''name'', PStr (name c)), (''status'', PStr ''SUCCESS'')])
            (merged_nodes ''python_etl'' now company (nodes g)),
          g\<lparr>nodes := merge_company ''python_etl'' now company (nodes g)\<rparr>)"

definition error_result :: "exc \<Rightarrow> dict" where
  "error_result e = [(''status'', PStr ''ERROR''), (''error'', PStr (str_exc e))]"

definition ingest_company_entity ::
  "store_env \<Rightarrow> CompanyEntity \<Rightarrow> client_state \<Rightarrow> (exc + dict) \<times> client_state" where
  "ingest_company_entity env company s =
     (case execute_query env (ingest_query company) s of
        (Inr results, s') \<Rightarrow>
          (Inr (case results of [] \<Rightarrow> [(''status'', PStr ''FAILED'')] | r # _ \<Rightarrow> r), s')
      | (Inl e, s') \<Rightarrow> (Inr (error_result e), s'))"

text \<open>
  \<^verbatim>\<open>UNWIND $entities AS entity MERGE ... RETURN count(c)\<close>: the MERGE runs once per entity,
  in list order, each run seeing the nodes the earlier runs created.
\<close>

fun unwind_merge :: "instant \<Rightarrow> CompanyEntity list \<Rightarrow> company_node list \<Rightarrow> nat \<times> company_node list" where
  "unwind_merge now [] ns = (0, ns)"
| "unwind_merge now (e # es) ns =
     (let k = length (merged_nodes ''python_etl_batch'' now e ns);
          (k', ns') = unwind_merge now es (merge_company ''python_etl_batch'' now e ns)
      in (k + k', ns'))"

definition batch_query :: "CompanyEntity list \<Rightarrow> statement" where
  "batch_query entities now g =
     (let (k, ns) = unwind_merge now entities (nodes g)
      in Inr ([[(''ingested_count'', PInt (int k))]], g\<lparr>nodes := ns\<rparr>))"

definition batch_ingest_companies ::
  "store_env \<Rightarrow> CompanyEntity list \<Rightarrow> client_state \<Rightarrow> (exc + dict) \<times> client_state" where
  "batch_ingest_companies env companies s =
     (if companies = [] then
        (Inr [(''success_count'', PInt 0), (''error_count'', PInt 0), (''total'', PInt 0)], s)
      else
        let failed = (\<lambda>e. [(''success_count'', PInt 0),
                              (''error_count'', PInt (int (length companies))),
                              (''total'', PInt (int (length companies))),
                              (''status'', PStr ''ERROR''),
                              (''error'', PStr (str_exc e))]);
            succeeded = (\<lambda>success_count. [(''success_count'', success_count),
                                             (''error_count'', PInt 0),
                                             (''total'', PInt (int (length companies))),
                                             (''status'', PStr ''SUCCESS'')])
        in case execute_query env (batch_query companies) s of
             (Inr results, s') \<Rightarrow>
               (case results of
                  [] \<Rightarrow> (Inr (succeeded (PInt 0)), s')
                | r # _ \<Rightarrow>
                    (case map_of r ''ingested_count'' of
                       Some v \<Rightarrow> (Inr (succeeded v), s')
                     | None \<Rightarrow> (Inr (failed (Exc KeyError ''ingested_count'')), s')))
           | (Inl e, s') \<Rightarrow> (Inr (failed e), s'))"

section \<open>Relationship creation\<close>

text \<open>
  \<^verbatim>\<open>MATCH (source:Company {name: $source_name})\<close>: every node with exactly this name, in
  store order.
\<close>

definition match_name :: "string \<Rightarrow> company_node list \<Rightarrow> nat list" where
  "match_name nm ns = filter (\<lambda>i. name (ns ! i) = nm) [0..<length ns]"

text \<open>\<^verbatim>\<open>SET r.k = v\<close> (a null value removes the property) and \<^verbatim>\<open>SET r += $properties\<close>.\<close>

definition set_prop :: "string \<Rightarrow> pyval \<Rightarrow> dict \<Rightarrow> dict" where
  "set_prop k v ps =
     (if v = PNone then filter (\<lambda>p. fst p \<noteq> k) ps else (k, v) # filter (\<lambda>p. fst p \<noteq> k) ps)"

definition add_props :: "dict \<Rightarrow> dict \<Rightarrow> dict" where
  "add_props new ps = fold (\<lambda>(k, v). set_prop k v) new ps"

text \<open>
  The relationship type is spliced into the statement text by an f-string. For a type that
  is a plain identifier (ASCII letters, digits, underscore, not starting with a digit), as
  every caller in the repository passes, the text is the MERGE statement below. For any
  other string the meaning of the text is the environment's \<open>spliced\<close>.
\<close>

definition ident_char :: "char \<Rightarrow> bool" where
  "ident_char c = (let k = of_char c :: nat in
     (65 \<le> k \<and> k \<le> 90) \<or> (97 \<le> k \<and> k \<le> 122) \<or> (48 \<le> k \<and> k \<le> 57) \<or> k = 95)"

definition cypher_identifier :: "string \<Rightarrow> bool" where
  "cypher_identifier t =
     (case t of [] \<Rightarrow> False
      | c # _ \<Rightarrow> list_all ident_char t \<and> \<not> (48 \<le> (of_char c :: nat) \<and> (of_char c :: nat) \<le> 57))"

text \<open>
  \<^verbatim>\<open>MERGE (source)-[r:TYPE]->(target) ON CREATE SET r += $properties, r.created_date =
  datetime() ON MATCH SET r += $properties, r.last_updated = datetime()\<close> for one bound
  (source, target) row: the number of relationships bound to \<open>r\<close>, and the edges afterwards.
\<close>

definition merge_relationship ::
  "string \<Rightarrow> dict \<Rightarrow> instant \<Rightarrow> nat \<times> nat \<Rightarrow> edge list \<Rightarrow> nat \<times> edge list" where
  "merge_relationship t ps now ij es =
     (let hit = (\<lambda>e. src e = fst ij \<and> tgt e = snd ij \<and> rel_type e = t) in
      if list_ex hit es
      then (length (filter hit es),
            map (\<lambda>e. if hit e
                      then e\<lparr>props := set_prop ''last_updated'' (PDateTime now) (add_props ps (props e))\<rparr>
                      else e) es)
      else (1, es @ [\<lparr>src = fst ij, tgt = snd ij, rel_type = t,
                      props = set_prop ''created_date'' (PDateTime now) (add_props ps [])\<rparr>]))"

fun merge_relationships ::
  "company_node list \<Rightarrow> string \<Rightarrow> dict \<Rightarrow> instant \<Rightarrow> (nat \<times> nat) list \<Rightarrow> edge list
     \<Rightarrow> dict list \<times> edge list" where
  "merge_relationships ns t ps now [] es = ([], es)"
| "merge_relationships ns t ps now (ij # rest) es =
     (let (k, es') = merge_relationship t ps now ij es;
          (rows, es'') = merge_relationships ns t ps now rest es'
      in (replicate k [(''source'', PStr (name (ns ! fst ij))),
                       (''target'', PStr (name (ns ! snd ij))),
                       (''relationship_type'', PStr t)] @ rows, es''))"

definition relationship_query :: "store_env \<Rightarrow> RelationshipData \<Rightarrow> statement" where
  "relationship_query env relationship now g =
     (if \<not> cypher_identifier (relationship_type relationship)
      then spliced env relationship now g
      else
        let bound = List.product (match_name (source_name relationship) (nodes g))
                                 (match_name (target_name relationship) (nodes g));
            (rows, es) = merge_relationships (nodes g) (relationship_type relationship)
                           (properties relationship) now bound (edges g)
        in Inr (rows, g\<lparr>edges := es\<rparr>))"

definition create_relationship ::
  "store_env \<Rightarrow> RelationshipData \<Rightarrow> client_state \<Rightarrow> (exc + dict) \<times> client_state" where
  "create_relationship env relationship s =
     (case execute_query env (relationship_query env relationship) s of
        (Inr results, s') \<Rightarrow>
          (Inr (case results of [] \<Rightarrow> [(''status'', PStr ''FAILED'')] | r # _ \<Rightarrow> r), s')
      | (Inl e, s') \<Rightarrow> (Inr (error_result e), s'))"

text \<open>
  \<^verbatim>\<open>MERGE (supplier)-[:SUPPLY_COMPONENTS {created_date: datetime(), confidence: 0.9,
  relationship_source: 'etl_pipeline'}]->(customer)\<close>: the property map is part of the
  pattern, so an existing relationship matches only if it carries these three values.
\<close>

definition supply_props :: "instant \<Rightarrow> dict" where
  "supply_props now =
     [(''created_date'', PDateTime now), (''confidence'', PFloat (9 / 10)),
      (''relationship_source'', PStr ''etl_pipeline'')]"

definition supply_hit :: "instant \<Rightarrow> nat \<times> nat \<Rightarrow> edge \<Rightarrow> bool" where
  "supply_hit now ij e =
     (src e = fst ij \<and> tgt e = snd ij \<and> rel_type e = ''SUPPLY_COMPONENTS'' \<and>
      list_all (\<lambda>(k, v). map_of (props e) k = Some v) (supply_props now))"

definition merge_supply :: "instant \<Rightarrow> nat \<times> nat \<Rightarrow> edge list \<Rightarrow> edge list" where
  "merge_supply now ij es =
     (if list_ex (supply_hit now ij) es then es
      else es @ [\<lparr>src = fst ij, tgt = snd ij, rel_type = ''SUPPLY_COMPONENTS'',
                  props = supply_props now\<rparr>])"

definition supply_query :: "string \<Rightarrow> string \<Rightarrow> statement" where
  "supply_query supplier customer now g =
     Inr ([], g\<lparr>edges := fold (merge_supply now)
                            (List.product (match_name supplier (nodes g)) (match_name customer (nodes g)))
                            (edges g)\<rparr>)"

definition create_supply_chain_relationships ::
  "store_env \<Rightarrow> (string \<times> string) list \<Rightarrow> client_state \<Rightarrow> (exc + dict) \<times> client_state" where
  "create_supply_chain_relationships env supplier_customer_pairs s =
     (let queries = map (\<lambda>(supplier, customer). supply_query supplier customer) supplier_customer_pairs in
      case execute_write_transaction env queries s of
        (Inr results, s') \<Rightarrow>
          (Inr [(''relationships_created'', PInt (int (length supplier_customer_pairs))),
                (''status'', PStr ''SUCCESS'')], s')
      | (Inl e, s') \<Rightarrow> (Inr (error_result e), s'))"

section \<open>Observations used in the statements below\<close>

text \<open>
  What the tests read back from the store: the number of Company nodes with a permid
  (\<^verbatim>\<open>MATCH (c:Company {permid: ...}) RETURN count(c)\<close>), and the relationships of a type
  between two named companies.
\<close>

definition count_permid :: "int \<Rightarrow> graph \<Rightarrow> nat" where
  "count_permid p g = length (filter (\<lambda>c. permid c = p) (nodes g))"

definition edges_between :: "string \<Rightarrow> string \<Rightarrow> string \<Rightarrow> graph \<Rightarrow> edge list" where
  "edges_between t a b g =
     filter (\<lambda>e. rel_type e = t \<and> src e < length (nodes g) \<and> tgt e < length (nodes g) \<and>
                 name (nodes g ! src e) = a \<and> name (nodes g ! tgt e) = b) (edges g)"

section \<open>Concrete inputs\<close>

text \<open>
  The stores below are only given relationship types that are identifiers; for the rest
  they answer with a syntax error.
\<close>

definition rejected :: "RelationshipData \<Rightarrow> statement" where
  "rejected relationship now g = Inl (Exc CypherSyntaxError ''Invalid input'')"

text \<open>A store that never fails and whose clock advances by one at every statement.\<close>

definition reliable :: store_env where
  "reliable = \<lparr>instant_of = (\<lambda>i. i), fault = (\<lambda>i. None), spliced = rejected\<rparr>"

definition fresh_client :: client_state where
  "fresh_client = \<lparr>store = \<lparr>nodes = [], edges = []\<rparr>, runs = 0, query_count = 0, slept = []\<rparr>"

text \<open>\<^verbatim>\<open>CompanyEntity(permid=p, name=n, is_final_assembler=False, match_score=m)\<close>.\<close>

definition company :: "int \<Rightarrow> string \<Rightarrow> rat \<Rightarrow> CompanyEntity" where
  "company p n m =
     \<lparr>permid = p, name = n, is_final_assembler = False, match_score = m,
      industry_sector = None, country = None, market_cap = None, revenue = None\<rparr>"

text \<open>
  A store that raises a transient error at its first two statements and works from the
  third on; a store that is down; a store that rejects its third statement; a store that
  is down for its first statement only.
\<close>

definition flaky_twice :: store_env where
  "flaky_twice = \<lparr>instant_of = (\<lambda>i. i),
                  fault = (\<lambda>i. if i < 2 then Some (Exc TransientError ''transient'') else None),
                  spliced = rejected\<rparr>"

definition unavailable :: store_env where
  "unavailable = \<lparr>instant_of = (\<lambda>i. i),
                  fault = (\<lambda>i. Some (Exc ServiceUnavailable ''connection refused'')),
                  spliced = rejected\<rparr>"

definition fails_second :: store_env where
  "fails_second = \<lparr>instant_of = (\<lambda>i. i),
                   fault = (\<lambda>i. if i = 2 then Some (Exc ConstraintError ''constraint violated'') else None),
                   spliced = rejected\<rparr>"

definition fails_first :: store_env where
  "fails_first = \<lparr>instant_of = (\<lambda>i. i),
                  fault = (\<lambda>i. if i = 0 then Some (Exc ServiceUnavailable ''connection refused'') else None),
                  spliced = rejected\<rparr>"

text \<open>
  A store that holds two Company nodes with permid 1; nothing in the client declares the
  permid unique, and \<^verbatim>\<open>validate_graph_consistency\<close> counts such duplicates.
\<close>

definition duplicate_client :: client_state where
  "duplicate_client =
     \<lparr>store = \<lparr>nodes = [on_create ''python_etl'' 0 (company 1 ''X'' (7/10)),
                         on_create ''python_etl'' 0 (company 1 ''X'' (7/10))],
               edges = []\<rparr>,
      runs = 1, query_count = 1, slept = []\<rparr>"

text \<open>
  The client after \<^verbatim>\<open>batch_ingest_companies\<close> of three of the sample companies of
  \<^verbatim>\<open>create_sample_data\<close> into an empty store (\<open>sample_client_built\<close> below).
\<close>

definition sample_client :: client_state where
  "sample_client =
     \<lparr>store = \<lparr>nodes = [on_create ''python_etl_batch'' 0 (company 4295906830 ''QCOM (Qualcomm Inc)'' (23/25)),
                         on_create ''python_etl_batch'' 0 (company 4295908001 ''ARM Holdings'' (89/100)),
                         on_create ''python_etl_batch'' 0 (company 4295908002 ''MediaTek'' (87/100))],
               edges = []\<rparr>,
      runs = 1, query_count = 1, slept = []\<rparr>"

section \<open>Basic facts about running a statement\<close>

lemma execute_query_once: "execute_query env q s = execute_query_body env q s"
  by (simp add: execute_query_def numeral_3_eq_3)

lemma execute_query_ok:
  "fault env (runs s) = None \<Longrightarrow> q (instant_of env (runs s)) (store s) = Inr (rows, g) \<Longrightarrow>
   execute_query env q s = (Inr rows, s\<lparr>runs := Suc (runs s), store := g, query_count := query_count s + 1\<rparr>)"
  by (simp add: execute_query_once execute_query_body_def session_run_def Let_def)

lemma execute_query_fault:
  "fault env (runs s) = Some e \<Longrightarrow> execute_query env q s = (Inl e, s\<lparr>runs := Suc (runs s)\<rparr>)"
  by (simp add: execute_query_once execute_query_body_def session_run_def Let_def)

lemma merge_company_length:
  "length (merge_company tag now e ns) = (if list_ex (\<lambda>c. permid c = permid e) ns then length ns else Suc (length ns))"
  by (simp add: merge_company_def)

lemma merge_company_nth:
  "i < length ns \<Longrightarrow> merge_company tag now e ns ! i = (if permid (ns ! i) = permid e then on_match now e (ns ! i) else ns ! i)"
  by (auto simp: merge_company_def nth_append list_ex_iff)

lemma permid_on_match [simp]: "permid (on_match now e c) = permid c"
  by (simp add: on_match_def)

lemma permid_on_create [simp]: "permid (on_create tag now e) = permid e"
  by (simp add: on_create_def)

lemma match_score_on_match: "match_score (on_match now e c) = max (match_score c) (match_score e)"
  by (simp add: on_match_def max_def)

lemma filter_permid_map_on_match:
  "filter (\<lambda>c. permid c = p) (map (\<lambda>c. if permid c = q then on_match now e c else c) ns)
     = map (\<lambda>c. if permid c = q then on_match now e c else c) (filter (\<lambda>c. permid c = p) ns)"
  by (induction ns) auto

lemma count_merge_company:
  "length (filter (\<lambda>c. permid c = p) (merge_company tag now e ns)) =
     (if p = permid e then max 1 (length (filter (\<lambda>c. permid c = p) ns)) else length (filter (\<lambda>c. permid c = p) ns))"
proof (cases "list_ex (\<lambda>c. permid c = permid e) ns")
  case True
  then have "filter (\<lambda>c. permid c = permid e) ns \<noteq> []"
    by (auto simp: list_ex_iff filter_empty_conv)
  then have "1 \<le> length (filter (\<lambda>c. permid c = permid e) ns)"
    by (cases "filter (\<lambda>c. permid c = permid e) ns") auto
  with True show ?thesis
    by (auto simp: merge_company_def filter_permid_map_on_match)
next
  case False
  then have "filter (\<lambda>c. permid c = permid e) ns = []"
    by (auto simp: list_ex_iff filter_empty_conv)
  with False show ?thesis
    by (auto simp: merge_company_def)
qed

lemma ingest_company_entity_ok:
  assumes "fault env (runs s) = None"
  shows "snd (ingest_company_entity env c s) =
           s\<lparr>runs := Suc (runs s),
             store := (store s)\<lparr>nodes := merge_company ''python_etl'' (instant_of env (runs s)) c (nodes (store s))\<rparr>,
             query_count := query_count s + 1\<rparr>"
  using assms by (simp add: ingest_company_entity_def execute_query_ok [where q = "ingest_query c"] ingest_query_def)

lemma ingest_company_entity_fault:
  assumes "fault env (runs s) = Some e"
  shows "ingest_company_entity env c s = (Inr (error_result e), s\<lparr>runs := Suc (runs s)\<rparr>)"
  using assms by (simp add: ingest_company_entity_def execute_query_fault)

lemma snd_unwind_merge:
  "snd (unwind_merge now es ns) = fold (merge_company ''python_etl_batch'' now) es ns"
  by (induction es arbitrary: ns) (simp_all add: Let_def case_prod_beta)

lemma batch_ingest_companies_ok:
  assumes "fault env (runs s) = None" and "cs \<noteq> []"
  shows "snd (batch_ingest_companies env cs s) =
           s\<lparr>runs := Suc (runs s),
             store := (store s)\<lparr>nodes := fold (merge_company ''python_etl_batch'' (instant_of env (runs s))) cs (nodes (store s))\<rparr>,
             query_count := query_count s + 1\<rparr>"
proof -
  obtain k ns where u: "unwind_merge (instant_of env (runs s)) cs (nodes (store s)) = (k, ns)"
    by (cases "unwind_merge (instant_of env (runs s)) cs (nodes (store s))")
  then have ns: "ns = fold (merge_company ''python_etl_batch'' (instant_of env (runs s))) cs (nodes (store s))"
    using snd_unwind_merge [of "instant_of env (runs s)" cs "nodes (store s)"] by simp
  have "batch_query cs (instant_of env (runs s)) (store s)
          = Inr ([[(''ingested_count'', PInt (int k))]], (store s)\<lparr>nodes := ns\<rparr>)"
    by (simp add: batch_query_def u)
  from execute_query_ok [where q = "batch_query cs", OF assms(1) this] assms(2) show ?thesis
    by (simp add: batch_ingest_companies_def ns)
qed

lemma batch_ingest_companies_fault:
  assumes "fault env (runs s) = Some e" and "cs \<noteq> []"
  shows "batch_ingest_companies env cs s =
     (Inr [(''success_count'', PInt 0),
           (''error_count'', PInt (int (length cs))),
           (''total'', PInt (int (length cs))),
           (''status'', PStr ''ERROR''),
           (''error'', PStr (str_exc e))], s\<lparr>runs := Suc (runs s)\<rparr>)"
  using assms by (simp add: batch_ingest_companies_def execute_query_fault)

lemma batch_ingest_companies_empty:
  "snd (batch_ingest_companies env [] s) = s"
  by (simp add: batch_ingest_companies_def)

lemma fold_merge_company_length: "length ns \<le> length (fold (merge_company tag now) es ns)"
proof (induction es arbitrary: ns)
  case Nil
  show ?case by simp
next
  case (Cons e es)
  have "length ns \<le> length (merge_company tag now e ns)"
    by (simp add: merge_company_length)
  also have "\<dots> \<le> length (fold (merge_company tag now) es (merge_company tag now e ns))"
    by (rule Cons.IH)
  finally show ?case by simp
qed

lemma fold_merge_company_nth:
  "i < length ns \<Longrightarrow>
   fold (merge_company tag now) es ns ! i =
     fold (\<lambda>e c. if permid c = permid e then on_match now e c else c) es (ns ! i)"
proof (induction es arbitrary: ns)
  case Nil
  show ?case by simp
next
  case (Cons e es)
  have "i < length (merge_company tag now e ns)"
    using Cons.prems by (simp add: merge_company_length)
  from Cons.IH [OF this] Cons.prems show ?case
    by (simp add: merge_company_nth)
qed

lemma fold_on_match_permid [simp]:
  "permid (fold (\<lambda>e c. if permid c = permid e then on_match now e c else c) es c) = permid c"
  by (induction es arbitrary: c) auto

lemma Max_insert_max:
  "finite S \<Longrightarrow> Max (insert (max a b) S) = Max (insert a (insert (b::rat) S))"
  by (cases "S = {}") (simp_all add: max.assoc)

lemma fold_on_match_score:
  "match_score (fold (\<lambda>e c. if permid c = permid e then on_match now e c else c) es c) =
     Max (insert (match_score c) (match_score ` {e \<in> set es. permid e = permid c}))"
proof (induction es arbitrary: c)
  case Nil
  show ?case by simp
next
  case (Cons e es)
  show ?case
  proof (cases "permid c = permid e")
    case True
    let ?S = "match_score ` {x \<in> set es. permid x = permid e}"
    have set_eq: "{x \<in> set (e # es). permid x = permid c} = insert e {x \<in> set es. permid x = permid e}"
      using True by auto
    have "match_score (fold (\<lambda>e c. if permid c = permid e then on_match now e c else c) (e # es) c)
            = Max (insert (max (match_score c) (match_score e)) ?S)"
      using True by (simp add: Cons.IH match_score_on_match del: Max_insert)
    also have "\<dots> = Max (insert (match_score c) (insert (match_score e) ?S))"
      by (rule Max_insert_max) simp
    finally show ?thesis
      by (simp only: set_eq image_insert)
  next
    case False
    then have "{x \<in> set (e # es). permid x = permid c} = {x \<in> set es. permid x = permid c}" by auto
    with False show ?thesis by (simp add: Cons.IH)
  qed
qed

lemma company_simps [simp]:
  "permid (company p n m) = p" "name (company p n m) = n" "match_score (company p n m) = m"
  by (simp_all add: company_def)

lemma on_create_simps [simp]:
  "name (on_create tag now e) = name e" "match_score (on_create tag now e) = match_score e"
  by (simp_all add: on_create_def)

lemma list_ex_filter_length: "list_ex P xs \<longleftrightarrow> 0 < length (filter P xs)"
  by (induction xs) auto

lemma ingest_company_entity_nodes:
  "nodes (store (snd (ingest_company_entity env c s))) =
     (case fault env (runs s) of
        None \<Rightarrow> merge_company ''python_etl'' (instant_of env (runs s)) c (nodes (store s))
      | Some e \<Rightarrow> nodes (store s))"
  by (cases "fault env (runs s)") (simp_all add: ingest_company_entity_ok ingest_company_entity_fault)

lemma batch_ingest_companies_nodes:
  "nodes (store (snd (batch_ingest_companies env cs s))) =
     (case fault env (runs s) of
        None \<Rightarrow> fold (merge_company ''python_etl_batch'' (instant_of env (runs s))) cs (nodes (store s))
      | Some e \<Rightarrow> nodes (store s))"
proof (cases "cs = []")
  case True
  then show ?thesis by (simp add: batch_ingest_companies_empty split: option.splits)
next
  case False
  then show ?thesis
    by (cases "fault env (runs s)") (simp_all add: batch_ingest_companies_ok batch_ingest_companies_fault)
qed

lemma runs_ingest_company_entity: "runs (snd (ingest_company_entity env c s)) = Suc (runs s)"
  by (cases "fault env (runs s)") (simp_all add: ingest_company_entity_ok ingest_company_entity_fault)

lemma reliable_simps [simp]: "fault reliable i = None" "instant_of reliable i = i"
  by (simp_all add: reliable_def)

lemma fresh_client_simps [simp]:
  "nodes (store fresh_client) = []" "edges (store fresh_client) = []" "runs fresh_client = 0"
  by (simp_all add: fresh_client_def)

section \<open>Upsert: the score of an existing node\<close>

text \<open>
  Claim C1. When an entity is upserted whose permid already has a node (node \<open>i\<close> of the
  store), the score stored at that node afterwards is the maximum of the score it had and
  the score supplied, whenever the store runs the statement; it never decreases, whatever
  the store does. For \<^verbatim>\<open>ingest_company_entity\<close> the maximum is over the one supplied
  score; for \<^verbatim>\<open>batch_ingest_companies\<close> it is over the scores of all entities of the
  batch with that permid, which are upserted one after the other.
\<close>

theorem match_score_monotonic_max:
  assumes "i < length (nodes (store s))" and "permid (nodes (store s) ! i) = permid c"
  shows "(fault env (runs s) = None \<longrightarrow>
            match_score (nodes (store (snd (ingest_company_entity env c s))) ! i)
              = max (match_score (nodes (store s) ! i)) (match_score c))
       \<and> match_score (nodes (store s) ! i)
            \<le> match_score (nodes (store (snd (ingest_company_entity env c s))) ! i)
       \<and> (fault env (runs s) = None \<longrightarrow>
            match_score (nodes (store (snd (batch_ingest_companies env cs s))) ! i)
              = Max (insert (match_score (nodes (store s) ! i))
                            (match_score ` {e \<in> set cs. permid e = permid c})))
       \<and> match_score (nodes (store s) ! i)
            \<le> match_score (nodes (store (snd (batch_ingest_companies env cs s))) ! i)"
proof -
  let ?old = "nodes (store s) ! i"
  have single_ok: "match_score (nodes (store (snd (ingest_company_entity env c s))) ! i)
                     = max (match_score ?old) (match_score c)"
    if "fault env (runs s) = None"
    using that assms by (simp add: ingest_company_entity_ok merge_company_nth match_score_on_match)
  have single_le: "match_score ?old \<le> match_score (nodes (store (snd (ingest_company_entity env c s))) ! i)"
  proof (cases "fault env (runs s)")
    case None
    then show ?thesis by (simp add: single_ok)
  next
    case (Some e)
    then show ?thesis by (simp add: ingest_company_entity_fault)
  qed
  have batch_ok: "match_score (nodes (store (snd (batch_ingest_companies env cs s))) ! i)
                    = Max (insert (match_score ?old) (match_score ` {e \<in> set cs. permid e = permid c}))"
    if ok: "fault env (runs s) = None"
  proof (cases "cs = []")
    case True
    then show ?thesis by (simp add: batch_ingest_companies_empty)
  next
    case False
    with ok assms show ?thesis
      by (simp add: batch_ingest_companies_ok fold_merge_company_nth fold_on_match_score del: Max_insert)
  qed
  have batch_le: "match_score ?old \<le> match_score (nodes (store (snd (batch_ingest_companies env cs s))) ! i)"
  proof (cases "fault env (runs s) = None \<or> cs = []")
    case True
    then show ?thesis
    proof
      assume "fault env (runs s) = None"
      then show ?thesis by (simp add: batch_ok del: Max_insert)
    next
      assume "cs = []"
      then show ?thesis by (simp add: batch_ingest_companies_empty)
    qed
  next
    case False
    then obtain e where "fault env (runs s) = Some e" and "cs \<noteq> []" by auto
    then show ?thesis by (simp add: batch_ingest_companies_fault)
  qed
  from single_ok single_le batch_ok batch_le show ?thesis by blast
qed

theorem match_score_monotonic_max_witness:
  "match_score (nodes (store (snd (ingest_company_entity reliable (company 1 ''X'' (1/2))
       (snd (ingest_company_entity reliable (company 1 ''X'' (7/10)) fresh_client))))) ! 0) = 7/10
   \<and> match_score (nodes (store (snd (batch_ingest_companies reliable [company 1 ''X'' (1/2), company 1 ''X'' (9/10)]
       (snd (ingest_company_entity reliable (company 1 ''X'' (7/10)) fresh_client))))) ! 0) = 9/10"
proof -
  let ?s = "snd (ingest_company_entity reliable (company 1 ''X'' (7/10)) fresh_client)"
  let ?cs = "[company 1 ''X'' (1/2), company 1 ''X'' (9/10)]"
  have s: "?s = \<lparr>store = \<lparr>nodes = [on_create ''python_etl'' 0 (company 1 ''X'' (7/10))], edges = []\<rparr>,
                  runs = 1, query_count = 1, slept = []\<rparr>"
    by (simp add: reliable_def fresh_client_def ingest_company_entity_ok merge_company_def)
  have h1: "0 < length (nodes (store ?s))" by (simp add: s)
  have h2: "permid (nodes (store ?s) ! 0) = permid (company 1 ''X'' (1/2))"
    by (simp add: s)
  have f: "fault reliable (runs ?s) = None" by (simp add: reliable_def)
  have m: "match_score (nodes (store ?s) ! 0) = 7/10" by (simp add: s)
  have set_eq: "{e \<in> set ?cs. permid e = permid (company 1 ''X'' (1/2))} = set ?cs"
    by auto
  note inst = match_score_monotonic_max [OF h1 h2, of reliable ?cs]
  have "match_score (nodes (store (snd (ingest_company_entity reliable (company 1 ''X'' (1/2)) ?s))) ! 0)
          = max (match_score (nodes (store ?s) ! 0)) (match_score (company 1 ''X'' (1/2)))"
    using inst f by blast
  also have "\<dots> = 7/10" unfolding m by simp
  finally have single: "match_score (nodes (store (snd (ingest_company_entity reliable (company 1 ''X'' (1/2)) ?s))) ! 0) = 7/10" .
  have "match_score (nodes (store (snd (batch_ingest_companies reliable ?cs ?s))) ! 0)
          = Max (insert (match_score (nodes (store ?s) ! 0)) (match_score ` {e \<in> set ?cs. permid e = permid (company 1 ''X'' (1/2))}))"
    using inst f by blast
  also have "\<dots> = 9/10" unfolding m set_eq by simp
  finally have batch: "match_score (nodes (store (snd (batch_ingest_companies reliable ?cs ?s))) ! 0) = 9/10" .
  from single batch show ?thesis by (rule conjI)
qed

text \<open>
  The sequence of the specification: score 0.7, then 0.5, then 0.9 for the same permid,
  into an empty store. The stored score is 0.7, stays 0.7, and becomes 0.9.
\<close>

lemma monotonic_score_example:
  "map match_score (nodes (store (snd (ingest_company_entity reliable (company 1 ''X'' (7/10)) fresh_client))))
     = [7/10]"
  "map match_score (nodes (store (snd (ingest_company_entity reliable (company 1 ''X'' (1/2))
      (snd (ingest_company_entity reliable (company 1 ''X'' (7/10)) fresh_client))))))
     = [7/10]"
  "map match_score (nodes (store (snd (ingest_company_entity reliable (company 1 ''X'' (9/10))
      (snd (ingest_company_entity reliable (company 1 ''X'' (1/2))
        (snd (ingest_company_entity reliable (company 1 ''X'' (7/10)) fresh_client))))))))
     = [9/10]"
  by (simp_all add: ingest_company_entity_nodes runs_ingest_company_entity merge_company_def on_match_def)

section \<open>Upsert: one node per permid\<close>

lemma merge_company_distinct:
  assumes d: "distinct (map permid ns)"
  shows "distinct (map permid (merge_company tag now e ns))"
proof (cases "list_ex (\<lambda>c. permid c = permid e) ns")
  case True
  have h: "map permid (map (\<lambda>c. if permid c = permid e then on_match now e c else c) ns) = map permid ns"
    by (induction ns) auto
  show ?thesis
    by (simp only: merge_company_def True if_True h d)
next
  case False
  then have "permid e \<notin> set (map permid ns)"
    by (auto simp: list_ex_iff)
  with False d show ?thesis
    by (simp add: merge_company_def)
qed

lemma fold_merge_company_distinct:
  "distinct (map permid ns) \<Longrightarrow> distinct (map permid (fold (merge_company tag now) es ns))"
  by (induction es arbitrary: ns) (simp_all add: merge_company_distinct)

lemma permid_unique_preserved:
  assumes "distinct (map permid (nodes (store s)))"
  shows "distinct (map permid (nodes (store (snd (ingest_company_entity env c s)))))"
    and "distinct (map permid (nodes (store (snd (batch_ingest_companies env cs s)))))"
  using assms
  by (simp_all add: ingest_company_entity_nodes batch_ingest_companies_nodes merge_company_distinct
        fold_merge_company_distinct split: option.splits)

text \<open>
  Claim C3, as the code has it. On a store in which the permid of the entity has at most
  one node (as in every store built by the ingestion operations alone,
  \<open>permid_unique_preserved\<close>), and when the store runs the first call, upserting the same
  entity twice leaves exactly one node with its permid, and the second call, whether the
  store runs it or not, changes no node count.
\<close>

theorem ingest_twice_idempotent:
  assumes "fault env (runs s) = None" and "count_permid (permid c) (store s) \<le> 1"
  shows "count_permid (permid c) (store (snd (ingest_company_entity env c (snd (ingest_company_entity env c s))))) = 1
       \<and> length (nodes (store (snd (ingest_company_entity env c (snd (ingest_company_entity env c s))))))
           = length (nodes (store (snd (ingest_company_entity env c s))))"
proof -
  let ?s1 = "snd (ingest_company_entity env c s)"
  let ?P = "\<lambda>n. permid n = permid c"
  have n1: "nodes (store ?s1) = merge_company ''python_etl'' (instant_of env (runs s)) c (nodes (store s))"
    using assms(1) by (simp add: ingest_company_entity_nodes)
  have c1: "length (filter ?P (nodes (store ?s1))) = 1"
    using assms(2) by (simp add: n1 count_merge_company count_permid_def)
  show ?thesis
  proof (cases "fault env (runs ?s1)")
    case None
    then have n2: "nodes (store (snd (ingest_company_entity env c ?s1)))
                    = merge_company ''python_etl'' (instant_of env (runs ?s1)) c (nodes (store ?s1))"
      by (simp add: ingest_company_entity_nodes)
    have "list_ex ?P (nodes (store ?s1))"
      using c1 by (simp add: list_ex_filter_length)
    then show ?thesis
      using c1 by (simp add: n2 count_permid_def count_merge_company merge_company_length)
  next
    case (Some e)
    then have "nodes (store (snd (ingest_company_entity env c ?s1))) = nodes (store ?s1)"
      by (simp add: ingest_company_entity_nodes)
    then show ?thesis using c1 by (simp add: count_permid_def)
  qed
qed

theorem ingest_twice_idempotent_witness:
  "count_permid 1 (store (snd (ingest_company_entity reliable (company 1 ''X'' (7/10))
       (snd (ingest_company_entity reliable (company 1 ''X'' (7/10)) fresh_client))))) = 1
   \<and> length (nodes (store (snd (ingest_company_entity reliable (company 1 ''X'' (7/10))
       (snd (ingest_company_entity reliable (company 1 ''X'' (7/10)) fresh_client))))))
       = length (nodes (store (snd (ingest_company_entity reliable (company 1 ''X'' (7/10)) fresh_client))))"
proof -
  have f: "fault reliable (runs fresh_client) = None" by (simp add: reliable_def)
  have c: "count_permid (permid (company 1 ''X'' (7/10))) (store fresh_client) \<le> 1"
    by (simp add: count_permid_def fresh_client_def)
  from ingest_twice_idempotent [OF f c] show ?thesis by simp
qed

text \<open>
  The claim as worded, for every store state, fails. On a store that already holds two
  nodes with the permid, the MERGE matches both and two remain after the two calls. And
  when the store is down for the first call only, it is the second call that creates the
  node, so the second call changes the node count.
\<close>

theorem ingest_twice_every_store_counterexample:
  "count_permid 1 (store (snd (ingest_company_entity reliable (company 1 ''X'' (7/10))
       (snd (ingest_company_entity reliable (company 1 ''X'' (7/10)) duplicate_client))))) = 2
   \<and> length (nodes (store (snd (ingest_company_entity fails_first (company 1 ''X'' (7/10)) fresh_client)))) = 0
   \<and> length (nodes (store (snd (ingest_company_entity fails_first (company 1 ''X'' (7/10))
       (snd (ingest_company_entity fails_first (company 1 ''X'' (7/10)) fresh_client)))))) = 1"
  by (simp add: ingest_company_entity_nodes runs_ingest_company_entity count_permid_def
        merge_company_def duplicate_client_def fails_first_def)

section \<open>Upsert: what a match changes\<close>

lemma fold_on_match_eq:
  "fold (\<lambda>e c. if permid c = permid e then on_match now e c else c) es c =
     (if \<exists>e\<in>set es. permid e = permid c
      then c\<lparr>match_score := Max (insert (match_score c) (match_score ` {e \<in> set es. permid e = permid c})),
             last_updated := Some now\<rparr>
      else c)"
proof -
  let ?f = "\<lambda>e c. if permid c = permid e then on_match now e c else c"
  have shape: "fold ?f es c =
     (if \<exists>e\<in>set es. permid e = permid c
      then c\<lparr>match_score := match_score (fold ?f es c), last_updated := Some now\<rparr> else c)"
  proof (induction es arbitrary: c)
    case Nil
    show ?case by simp
  next
    case (Cons e es)
    show ?case
    proof (cases "permid c = permid e")
      case True
      have p: "permid (on_match now e c) = permid c" by simp
      have step: "fold ?f (e # es) c = fold ?f es (on_match now e c)"
        using True by simp
      have "fold ?f es (on_match now e c)
              = c\<lparr>match_score := match_score (fold ?f es (on_match now e c)), last_updated := Some now\<rparr>"
      proof (cases "\<exists>x\<in>set es. permid x = permid c")
        case True
        then have "fold ?f es (on_match now e c)
                     = (on_match now e c)\<lparr>match_score := match_score (fold ?f es (on_match now e c)),
                                             last_updated := Some now\<rparr>"
          using Cons.IH [of "on_match now e c"] by (simp only: p if_True)
        then show ?thesis by (simp add: on_match_def)
      next
        case False
        then have "fold ?f es (on_match now e c) = on_match now e c"
          using Cons.IH [of "on_match now e c"] by (simp only: p if_False)
        then show ?thesis by (simp add: on_match_def)
      qed
      with step have "fold ?f (e # es) c
              = c\<lparr>match_score := match_score (fold ?f (e # es) c), last_updated := Some now\<rparr>"
        by simp
      then show ?thesis using True by simp
    next
      case False
      then have a: "fold ?f (e # es) c = fold ?f es c" by simp
      have b: "(\<exists>x\<in>set (e # es). permid x = permid c) = (\<exists>x\<in>set es. permid x = permid c)"
        using False by auto
      show ?thesis unfolding a b by (rule Cons.IH)
    qed
  qed
  show ?thesis
    by (subst shape) (simp only: fold_on_match_score)
qed

text \<open>
  Claim C7, as the code has it. When the permid already has a node and the store runs the
  statement, the node keeps its stored name, is_final_assembler, industry_sector, country,
  market_cap and revenue (and ingestion_date and created_by): the upsert changes only
  match_score, to the maximum, and last_updated, to the instant of the statement. The same
  holds for an entity of a batch.
\<close>

theorem on_match_keeps_other_attributes:
  assumes "i < length (nodes (store s))" and "permid (nodes (store s) ! i) = permid c"
    and "fault env (runs s) = None"
  shows "nodes (store (snd (ingest_company_entity env c s))) ! i =
           (nodes (store s) ! i)\<lparr>match_score := max (match_score (nodes (store s) ! i)) (match_score c),
                                 last_updated := Some (instant_of env (runs s))\<rparr>
       \<and> (c \<in> set cs \<longrightarrow>
            nodes (store (snd (batch_ingest_companies env cs s))) ! i =
              (nodes (store s) ! i)\<lparr>match_score := Max (insert (match_score (nodes (store s) ! i))
                                                         (match_score ` {e \<in> set cs. permid e = permid c})),
                                    last_updated := Some (instant_of env (runs s))\<rparr>)"
proof
  show "nodes (store (snd (ingest_company_entity env c s))) ! i =
           (nodes (store s) ! i)\<lparr>match_score := max (match_score (nodes (store s) ! i)) (match_score c),
                                 last_updated := Some (instant_of env (runs s))\<rparr>"
    using assms by (simp add: ingest_company_entity_nodes merge_company_nth on_match_def max_def)
next
  show "c \<in> set cs \<longrightarrow>
            nodes (store (snd (batch_ingest_companies env cs s))) ! i =
              (nodes (store s) ! i)\<lparr>match_score := Max (insert (match_score (nodes (store s) ! i))
                                                         (match_score ` {e \<in> set cs. permid e = permid c})),
                                    last_updated := Some (instant_of env (runs s))\<rparr>"
  proof
    assume "c \<in> set cs"
    then have "\<exists>e\<in>set cs. permid e = permid (nodes (store s) ! i)"
      using assms(2) by auto
    then show "nodes (store (snd (batch_ingest_companies env cs s))) ! i =
              (nodes (store s) ! i)\<lparr>match_score := Max (insert (match_score (nodes (store s) ! i))
                                                         (match_score ` {e \<in> set cs. permid e = permid c})),
                                    last_updated := Some (instant_of env (runs s))\<rparr>"
      using assms by (simp add: batch_ingest_companies_nodes fold_merge_company_nth fold_on_match_eq del: Max_insert)
  qed
qed

theorem on_match_keeps_other_attributes_witness:
  "nodes (store (snd (ingest_company_entity reliable (company 4295905573 ''Duplicate Apple'' (99/100))
       (snd (ingest_company_entity reliable (company 4295905573 ''Apple Inc'' (49/50)) fresh_client))))) ! 0
     = (on_create ''python_etl'' 0 (company 4295905573 ''Apple Inc'' (49/50)))
          \<lparr>match_score := 99/100, last_updated := Some 1\<rparr>"
proof -
  let ?s = "snd (ingest_company_entity reliable (company 4295905573 ''Apple Inc'' (49/50)) fresh_client)"
  have n: "nodes (store ?s) = [on_create ''python_etl'' 0 (company 4295905573 ''Apple Inc'' (49/50))]"
    by (simp add: ingest_company_entity_nodes merge_company_def)
  have r: "runs ?s = 1" by (simp add: runs_ingest_company_entity)
  have h1: "0 < length (nodes (store ?s))" by (simp add: n)
  have h2: "permid (nodes (store ?s) ! 0) = permid (company 4295905573 ''Duplicate Apple'' (99/100))"
    by (simp add: n)
  have h3: "fault reliable (runs ?s) = None" by simp
  from on_match_keeps_other_attributes [OF h1 h2 h3, of "[]"] show ?thesis
    by (simp add: n r)
qed

text \<open>
  The claim as worded fails: upserting permid 4295905573 under the name "Duplicate Apple"
  over the node named "Apple Inc" leaves the stored name as it was.
\<close>

theorem upsert_keeps_stored_name_counterexample:
  "name (nodes (store (snd (ingest_company_entity reliable (company 4295905573 ''Duplicate Apple'' (99/100))
       (snd (ingest_company_entity reliable (company 4295905573 ''Apple Inc'' (49/50)) fresh_client))))) ! 0)
     = ''Apple Inc''"
  by (simp add: ingest_company_entity_nodes runs_ingest_company_entity merge_company_def on_match_def)

section \<open>Batch ingestion with repeated permids\<close>

lemma filter_merge_company:
  "filter (\<lambda>c. permid c = p) (merge_company tag now e ns) =
     (if permid e = p
      then (if filter (\<lambda>c. permid c = p) ns = [] then [on_create tag now e]
            else map (on_match now e) (filter (\<lambda>c. permid c = p) ns))
      else filter (\<lambda>c. permid c = p) ns)"
proof (cases "list_ex (\<lambda>c. permid c = permid e) ns")
  case True
  have same: "map (\<lambda>c. if permid c = permid e then on_match now e c else c) (filter (\<lambda>c. permid c = p) ns)
                = (if permid e = p then map (on_match now e) (filter (\<lambda>c. permid c = p) ns)
                   else filter (\<lambda>c. permid c = p) ns)"
    by (induction ns) auto
  have "permid e = p \<Longrightarrow> filter (\<lambda>c. permid c = p) ns \<noteq> []"
    using True by (auto simp: list_ex_iff filter_empty_conv)
  with True same show ?thesis
    by (auto simp: merge_company_def filter_permid_map_on_match)
next
  case False
  then have "permid e = p \<Longrightarrow> filter (\<lambda>c. permid c = p) ns = []"
    by (auto simp: list_ex_iff filter_empty_conv)
  with False show ?thesis
    by (auto simp: merge_company_def)
qed

lemma count_fold_merge_company:
  "length (filter (\<lambda>c. permid c = p) (fold (merge_company tag now) es ns)) =
     (if \<exists>e\<in>set es. permid e = p then max 1 (length (filter (\<lambda>c. permid c = p) ns))
      else length (filter (\<lambda>c. permid c = p) ns))"
  by (induction es arbitrary: ns) (auto simp: count_merge_company)

lemma score_fold_merge_company:
  assumes "length (filter (\<lambda>c. permid c = p) ns) \<le> 1"
    and "n \<in> set (fold (merge_company tag now) es ns)" and "permid n = p"
  shows "match_score n =
           Max (match_score ` {e \<in> set es. permid e = p} \<union> match_score ` {c \<in> set ns. permid c = p})"
  using assms
proof (induction es arbitrary: ns)
  case Nil
  then obtain m where m: "filter (\<lambda>c. permid c = p) ns = [m]"
    by (cases "filter (\<lambda>c. permid c = p) ns") (auto simp: filter_empty_conv)
  have "{c \<in> set ns. permid c = p} = set (filter (\<lambda>c. permid c = p) ns)" by auto
  then have "{c \<in> set ns. permid c = p} = {m}" by (simp only: m) simp
  moreover from Nil have "n \<in> {c \<in> set ns. permid c = p}" by simp
  ultimately show ?case by simp
next
  case (Cons e es)
  let ?P = "\<lambda>c. permid c = p"
  let ?ns' = "merge_company tag now e ns"
  let ?S = "match_score ` {x \<in> set es. permid x = p}"
  have sets: "\<And>xs. {c \<in> set xs. permid c = p} = set (filter ?P xs)" by auto
  have len: "length (filter ?P ?ns') \<le> 1"
    using Cons.prems(1) by (auto simp: count_merge_company)
  have mem: "n \<in> set (fold (merge_company tag now) es ?ns')"
    using Cons.prems(2) by simp
  have IH: "match_score n = Max (?S \<union> match_score ` set (filter ?P ?ns'))"
    using Cons.IH [OF len mem Cons.prems(3)] by (simp only: sets)
  show ?case
  proof (cases "permid e = p")
    case False
    then have "{x \<in> set (e # es). permid x = p} = {x \<in> set es. permid x = p}" by auto
    with False IH show ?thesis by (simp only: sets filter_merge_company if_False)
  next
    case True
    then have es: "{x \<in> set (e # es). permid x = p} = insert e {x \<in> set es. permid x = p}" by auto
    show ?thesis
    proof (cases "filter ?P ns")
      case Nil
      with True IH have "match_score n = Max (?S \<union> {match_score e})"
        by (simp add: filter_merge_company del: Max_insert)
      then show ?thesis
        by (simp only: es sets Nil image_insert) (simp add: Un_commute del: Max_insert)
    next
      case (Cons m rest)
      with Cons.prems(1) have m: "filter ?P ns = [m]" by simp
      with True IH have "match_score n = Max (insert (max (match_score m) (match_score e)) ?S)"
        by (simp add: filter_merge_company match_score_on_match del: Max_insert)
      also have "\<dots> = Max (insert (match_score m) (insert (match_score e) ?S))"
        by (rule Max_insert_max) simp
      finally show ?thesis
        by (simp only: es sets m image_insert) (simp add: insert_commute del: Max_insert)
    qed
  qed
qed

text \<open>
  Claim C8, as the code has it. After a batch that names permid \<open>p\<close> (once or several
  times), run by the store on a graph with at most one node for \<open>p\<close>, exactly one node
  for \<open>p\<close> exists, and its score is the maximum over the scores the batch supplies for
  \<open>p\<close> together with the score of the node stored before, if there was one.
\<close>

theorem batch_duplicates_max:
  assumes "fault env (runs s) = None" and "count_permid p (store s) \<le> 1"
    and "\<exists>c\<in>set cs. permid c = p"
  shows "count_permid p (store (snd (batch_ingest_companies env cs s))) = 1
       \<and> (\<forall>n\<in>set (nodes (store (snd (batch_ingest_companies env cs s)))).
            permid n = p \<longrightarrow>
              match_score n = Max (match_score ` {c \<in> set cs. permid c = p}
                                   \<union> match_score ` {c \<in> set (nodes (store s)). permid c = p}))"
proof -
  have n: "nodes (store (snd (batch_ingest_companies env cs s)))
             = fold (merge_company ''python_etl_batch'' (instant_of env (runs s))) cs (nodes (store s))"
    using assms(1) by (simp add: batch_ingest_companies_nodes)
  have len: "length (filter (\<lambda>c. permid c = p) (nodes (store s))) \<le> 1"
    using assms(2) by (simp add: count_permid_def)
  have "count_permid p (store (snd (batch_ingest_companies env cs s))) = 1"
    using assms(3) len by (simp add: count_permid_def n count_fold_merge_company)
  moreover have "\<forall>n\<in>set (nodes (store (snd (batch_ingest_companies env cs s)))).
            permid n = p \<longrightarrow>
              match_score n = Max (match_score ` {c \<in> set cs. permid c = p}
                                   \<union> match_score ` {c \<in> set (nodes (store s)). permid c = p})"
    unfolding n using score_fold_merge_company [OF len] by blast
  ultimately show ?thesis by (rule conjI)
qed

theorem batch_duplicates_max_witness:
  "count_permid 7 (store (snd (batch_ingest_companies reliable
       [company 7 ''X'' (3/5), company 7 ''X'' (4/5)] fresh_client))) = 1
   \<and> match_score (nodes (store (snd (batch_ingest_companies reliable
       [company 7 ''X'' (3/5), company 7 ''X'' (4/5)] fresh_client))) ! 0) = 4/5"
proof -
  let ?cs = "[company 7 ''X'' (3/5), company 7 ''X'' (4/5)]"
  let ?s' = "snd (batch_ingest_companies reliable ?cs fresh_client)"
  have h1: "fault reliable (runs fresh_client) = None" by simp
  have h2: "count_permid 7 (store fresh_client) \<le> 1" by (simp add: count_permid_def)
  have h3: "\<exists>c\<in>set ?cs. permid c = 7" by simp
  note inst = batch_duplicates_max [OF h1 h2 h3]
  have n: "nodes (store ?s') ! 0 \<in> set (nodes (store ?s'))" "permid (nodes (store ?s') ! 0) = 7"
    by (simp_all add: batch_ingest_companies_nodes merge_company_def)
  have sets: "{c \<in> set ?cs. permid c = 7} = set ?cs" "{c \<in> set (nodes (store fresh_client)). permid c = 7} = {}"
    by auto
  have "match_score (nodes (store ?s') ! 0)
          = Max (match_score ` {c \<in> set ?cs. permid c = 7}
                 \<union> match_score ` {c \<in> set (nodes (store fresh_client)). permid c = 7})"
    using inst n by blast
  also have "\<dots> = 4/5" unfolding sets by simp
  finally show ?thesis using inst by simp
qed

text \<open>
  The claim as worded fails when the node stored before has the higher score: with 0.95
  stored, the batch with scores 0.6 and 0.8 leaves 0.95, not the highest of the batch.
\<close>

theorem batch_duplicates_stored_score_counterexample:
  "map match_score (nodes (store (snd (batch_ingest_companies reliable
       [company 7 ''X'' (3/5), company 7 ''X'' (4/5)]
       (snd (ingest_company_entity reliable (company 7 ''X'' (19/20)) fresh_client))))))
     = [19/20]
   \<and> (19/20 :: rat) \<noteq> 4/5"
  by (simp add: batch_ingest_companies_nodes ingest_company_entity_nodes runs_ingest_company_entity
        merge_company_def on_match_def)

section \<open>Constructing an entity\<close>

text \<open>
  Claim C2, as the code has it. Constructing a CompanyEntity never fails: whatever the
  permid, name and score, the entity holds them as given. Nothing stops such an entity on
  its way to the store: when the store runs the statement of \<^verbatim>\<open>ingest_company_entity\<close>
  and the permid has no node yet, the node created carries these values.
\<close>

theorem CompanyEntity_init_accepts_any_values:
  "\<exists>e. CompanyEntity_init p n f m sec ctry cap rv = Inr e
       \<and> permid e = p \<and> name e = n \<and> match_score e = m
       \<and> (fault env (runs s) = None \<and> count_permid p (store s) = 0 \<longrightarrow>
            nodes (store (snd (ingest_company_entity env e s)))
              = nodes (store s) @ [on_create ''python_etl'' (instant_of env (runs s)) e])"
proof -
  let ?e = "\<lparr>permid = p, name = n, is_final_assembler = f, match_score = m,
             industry_sector = sec, country = ctry, market_cap = cap, revenue = rv\<rparr>"
  have "fault env (runs s) = None \<and> count_permid p (store s) = 0 \<longrightarrow>
            nodes (store (snd (ingest_company_entity env ?e s)))
              = nodes (store s) @ [on_create ''python_etl'' (instant_of env (runs s)) ?e]"
    by (auto simp: ingest_company_entity_nodes merge_company_def count_permid_def
          list_ex_iff filter_empty_conv)
  then show ?thesis
    by (simp add: CompanyEntity_init_def)
qed

theorem CompanyEntity_init_accepts_any_values_witness:
  "CompanyEntity_init (-5) [] False 2 None None None None = Inr (company (-5) [] 2)
   \<and> nodes (store (snd (ingest_company_entity reliable (company (-5) [] 2) fresh_client)))
       = [on_create ''python_etl'' 0 (company (-5) [] 2)]"
proof -
  obtain e where e: "CompanyEntity_init (-5) [] False 2 None None None None = Inr e"
    and st: "fault reliable (runs fresh_client) = None \<and> count_permid (-5) (store fresh_client) = 0 \<longrightarrow>
            nodes (store (snd (ingest_company_entity reliable e fresh_client)))
              = nodes (store fresh_client) @ [on_create ''python_etl'' (instant_of reliable (runs fresh_client)) e]"
    using CompanyEntity_init_accepts_any_values [of "-5" "[]" False 2 None None None None reliable fresh_client]
    by blast
  have eq: "e = company (-5) [] 2"
    using e by (simp add: CompanyEntity_init_def company_def)
  have "count_permid (-5) (store fresh_client) = 0" by (simp add: count_permid_def)
  with st eq e show ?thesis by simp
qed

text \<open>
  The claim as worded fails: permid -5, an empty name and score 2 are accepted, and the
  entity is stored.
\<close>

theorem CompanyEntity_malformed_counterexample:
  "CompanyEntity_init (-5) [] False 2 None None None None = Inr (company (-5) [] 2)
   \<and> length (nodes (store (snd (ingest_company_entity reliable (company (-5) [] 2) fresh_client)))) = 1
   \<and> permid (nodes (store (snd (ingest_company_entity reliable (company (-5) [] 2) fresh_client))) ! 0) = -5
   \<and> name (nodes (store (snd (ingest_company_entity reliable (company (-5) [] 2) fresh_client))) ! 0) = []
   \<and> match_score (nodes (store (snd (ingest_company_entity reliable (company (-5) [] 2) fresh_client))) ! 0) = 2"
  by (simp add: CompanyEntity_init_def company_def ingest_company_entity_nodes merge_company_def on_create_def)

section \<open>Retry\<close>

text \<open>
  Applied to a function that runs the statement when called, \<^verbatim>\<open>__retry_internal\<close> does
  retry: two transient failures, sleeps of 2 and 4 seconds, success at the third attempt.
\<close>

lemma retry_internal_on_body:
  "retry_internal (execute_query_body flaky_twice (ingest_query (company 1 ''X'' (7/10)))) 3 2 2 fresh_client
     = (Inr (Some [[(''permid'', PInt 1), (''name'', PStr ''X''), (''status'', PStr ''SUCCESS'')]]),
        \<lparr>store = \<lparr>nodes = [on_create ''python_etl'' 2 (company 1 ''X'' (7/10))], edges = []\<rparr>,
         runs = 3, query_count = 1, slept = [2, 4]\<rparr>)"
  by (simp add: numeral_3_eq_3 execute_query_body_def session_run_def flaky_twice_def fresh_client_def
        retryable_def ingest_query_def merged_nodes_def merge_company_def Let_def)
     (simp add: numeral_2_eq_2)

text \<open>
  Claim C9, evaluated on the code. The store fails transiently at its first two attempts
  and would succeed at the third. \<^verbatim>\<open>execute_query\<close> raises the first TransientError after
  a single attempt and without sleeping: the decorator wraps the call that creates the
  coroutine, which cannot raise, and the exception of the awaited body passes it by.
\<close>

theorem execute_query_transient_not_retried:
  "execute_query flaky_twice (ingest_query (company 1 ''X'' (7/10))) fresh_client
     = (Inl (Exc TransientError ''transient''),
        \<lparr>store = \<lparr>nodes = [], edges = []\<rparr>, runs = 1, query_count = 0, slept = []\<rparr>)"
  by (simp add: execute_query_once execute_query_body_def session_run_def flaky_twice_def fresh_client_def Let_def)

section \<open>Ingestion returns a result dictionary\<close>

text \<open>
  Claim C10. \<^verbatim>\<open>ingest_company_entity\<close> and \<^verbatim>\<open>batch_ingest_companies\<close> return a
  dictionary for every input, store state and store behaviour, never an exception; when
  the statement they submit through \<^verbatim>\<open>execute_query\<close> raises \<open>e\<close>, the dictionary has
  status ERROR and the message of \<open>e\<close>, and for a (non-empty) batch also success_count 0
  and error_count equal to the batch size.
\<close>

theorem ingestion_never_raises:
  "(\<exists>d. fst (ingest_company_entity env c s) = Inr d)
   \<and> (\<exists>d. fst (batch_ingest_companies env cs s) = Inr d)
   \<and> (fst (execute_query env (ingest_query c) s) = Inl e \<longrightarrow>
        fst (ingest_company_entity env c s)
          = Inr [(''status'', PStr ''ERROR''), (''error'', PStr (str_exc e))])
   \<and> (cs \<noteq> [] \<and> fst (execute_query env (batch_query cs) s) = Inl e \<longrightarrow>
        fst (batch_ingest_companies env cs s)
          = Inr [(''success_count'', PInt 0),
                 (''error_count'', PInt (int (length cs))),
                 (''total'', PInt (int (length cs))),
                 (''status'', PStr ''ERROR''),
                 (''error'', PStr (str_exc e))])"
proof -
  have a: "\<exists>d. fst (ingest_company_entity env c s) = Inr d"
    by (simp add: ingest_company_entity_def split: prod.splits sum.splits)
  have b: "\<exists>d. fst (batch_ingest_companies env cs s) = Inr d"
    by (simp add: batch_ingest_companies_def Let_def split: prod.splits sum.splits list.splits option.splits)
  have c: "fst (execute_query env (ingest_query c) s) = Inl e \<longrightarrow>
        fst (ingest_company_entity env c s)
          = Inr [(''status'', PStr ''ERROR''), (''error'', PStr (str_exc e))]"
    by (cases "execute_query env (ingest_query c) s")
       (simp add: ingest_company_entity_def error_result_def)
  have d: "cs \<noteq> [] \<and> fst (execute_query env (batch_query cs) s) = Inl e \<longrightarrow>
             fst (batch_ingest_companies env cs s)
               = Inr [(''success_count'', PInt 0),
                      (''error_count'', PInt (int (length cs))),
                      (''total'', PInt (int (length cs))),
                      (''status'', PStr ''ERROR''),
                      (''error'', PStr (str_exc e))]"
    by (cases "execute_query env (batch_query cs) s")
       (simp add: batch_ingest_companies_def Let_def)
  from a b c d show ?thesis by blast
qed

theorem ingestion_never_raises_witness:
  "fst (ingest_company_entity unavailable (company 1 ''X'' (7/10)) fresh_client)
     = Inr [(''status'', PStr ''ERROR''), (''error'', PStr ''connection refused'')]
   \<and> fst (batch_ingest_companies unavailable [company 1 ''X'' (7/10), company 2 ''Y'' (1/2)] fresh_client)
     = Inr [(''success_count'', PInt 0), (''error_count'', PInt 2), (''total'', PInt 2),
            (''status'', PStr ''ERROR''), (''error'', PStr ''connection refused'')]"
proof -
  let ?e = "Exc ServiceUnavailable ''connection refused''"
  let ?cs = "[company 1 ''X'' (7/10), company 2 ''Y'' (1/2)]"
  have f: "fault unavailable (runs fresh_client) = Some ?e"
    by (simp add: unavailable_def)
  have h1: "fst (execute_query unavailable (ingest_query (company 1 ''X'' (7/10))) fresh_client) = Inl ?e"
    by (simp add: execute_query_fault [OF f])
  have h2: "?cs \<noteq> [] \<and> fst (execute_query unavailable (batch_query ?cs) fresh_client) = Inl ?e"
    by (simp add: execute_query_fault [OF f])
  from ingestion_never_raises [of unavailable "company 1 ''X'' (7/10)" fresh_client ?cs ?e] h1 h2
  show ?thesis by simp
qed

section \<open>Relationships: missing endpoints\<close>

lemma set_match_name: "set (match_name nm ns) = {i. i < length ns \<and> name (ns ! i) = nm}"
  by (auto simp: match_name_def)

lemma match_name_empty: "match_name nm ns = [] \<longleftrightarrow> (\<forall>n\<in>set ns. name n \<noteq> nm)"
proof -
  have "match_name nm ns = [] \<longleftrightarrow> set (match_name nm ns) = {}" by simp
  also have "\<dots> \<longleftrightarrow> (\<forall>n\<in>set ns. name n \<noteq> nm)"
    unfolding set_match_name by (auto simp: in_set_conv_nth dest: nth_mem)
  finally show ?thesis .
qed

lemma product_Nil_right: "List.product xs [] = []"
  by (induction xs) simp_all

lemma relationship_query_missing:
  assumes "(\<forall>n\<in>set (nodes g). name n \<noteq> source_name r) \<or> (\<forall>n\<in>set (nodes g). name n \<noteq> target_name r)"
    and "cypher_identifier (relationship_type r)"
  shows "relationship_query env r now g = Inr ([], g)"
proof -
  have "List.product (match_name (source_name r) (nodes g)) (match_name (target_name r) (nodes g)) = []"
    using assms(1) by (auto simp: match_name_empty [symmetric] product_Nil_right)
  with assms(2) show ?thesis by (simp add: relationship_query_def)
qed

text \<open>
  Claim C5, as the code has it. The relationship type is a plain identifier, and no node
  has exactly the source name, or none has exactly the target name. Then
  \<^verbatim>\<open>create_relationship\<close> leaves the store as it was (no edge, no placeholder node) and
  returns a dictionary: \<^verbatim>\<open>{'status': 'FAILED'}\<close>, the value the code returns for a
  statement that bound nothing, when the store runs the statement, and the ERROR dictionary
  of the exception when the store raises instead. Nothing is raised to the caller, and no
  error of the kind EndpointNotFound exists in the code.
\<close>

theorem create_relationship_missing_endpoint:
  assumes "(\<forall>n\<in>set (nodes (store s)). name n \<noteq> source_name r)
         \<or> (\<forall>n\<in>set (nodes (store s)). name n \<noteq> target_name r)"
    and "cypher_identifier (relationship_type r)"
  shows "store (snd (create_relationship env r s)) = store s
       \<and> (fault env (runs s) = None \<longrightarrow>
            fst (create_relationship env r s) = Inr [(''status'', PStr ''FAILED'')])
       \<and> (\<forall>e. fault env (runs s) = Some e \<longrightarrow>
            fst (create_relationship env r s)
              = Inr [(''status'', PStr ''ERROR''), (''error'', PStr (str_exc e))])"
proof (cases "fault env (runs s)")
  case (Some e)
  then show ?thesis
    by (simp add: create_relationship_def execute_query_fault error_result_def)
next
  case None
  have "relationship_query env r (instant_of env (runs s)) (store s) = Inr ([], store s)"
    using assms by (rule relationship_query_missing)
  from execute_query_ok [where q = "relationship_query env r", OF None this] None show ?thesis
    by (simp add: create_relationship_def)
qed

theorem create_relationship_missing_endpoint_witness:
  "store (snd (create_relationship reliable
       \<lparr>source_name = ''Apple Inc'', target_name = ''QUALCOMM Inc'', relationship_type = ''SUPPLY_COMPONENTS'',
        properties = [(''strength'', PFloat (17/20)), (''component_type'', PStr ''Modems'')]\<rparr>
       (snd (ingest_company_entity reliable (company 4295905573 ''Apple Inc'' (49/50)) fresh_client))))
     = store (snd (ingest_company_entity reliable (company 4295905573 ''Apple Inc'' (49/50)) fresh_client))
   \<and> fst (create_relationship unavailable
       \<lparr>source_name = ''Apple Inc'', target_name = ''QUALCOMM Inc'', relationship_type = ''SUPPLY_COMPONENTS'',
        properties = [(''strength'', PFloat (17/20)), (''component_type'', PStr ''Modems'')]\<rparr>
       (snd (ingest_company_entity reliable (company 4295905573 ''Apple Inc'' (49/50)) fresh_client)))
     = Inr [(''status'', PStr ''ERROR''), (''error'', PStr ''connection refused'')]"
proof -
  let ?s = "snd (ingest_company_entity reliable (company 4295905573 ''Apple Inc'' (49/50)) fresh_client)"
  let ?r = "\<lparr>source_name = ''Apple Inc'', target_name = ''QUALCOMM Inc'', relationship_type = ''SUPPLY_COMPONENTS'',
        properties = [(''strength'', PFloat (17/20)), (''component_type'', PStr ''Modems'')]\<rparr>"
  have n: "nodes (store ?s) = [on_create ''python_etl'' 0 (company 4295905573 ''Apple Inc'' (49/50))]"
    by (simp add: ingest_company_entity_nodes merge_company_def)
  have h: "(\<forall>n\<in>set (nodes (store ?s)). name n \<noteq> source_name ?r)
         \<or> (\<forall>n\<in>set (nodes (store ?s)). name n \<noteq> target_name ?r)"
    by (simp add: n)
  have ident: "cypher_identifier (relationship_type ?r)"
    by (simp add: cypher_identifier_def ident_char_def)
  have down: "fault unavailable (runs ?s) = Some (Exc ServiceUnavailable ''connection refused'')"
    by (simp add: unavailable_def)
  have "store (snd (create_relationship reliable ?r ?s)) = store ?s"
    using create_relationship_missing_endpoint [OF h ident, of reliable] by blast
  moreover have "fst (create_relationship unavailable ?r ?s)
       = Inr [(''status'', PStr ''ERROR''),
              (''error'', PStr (str_exc (Exc ServiceUnavailable ''connection refused'')))]"
    using create_relationship_missing_endpoint [OF h ident, of unavailable] down by blast
  ultimately show ?thesis by simp
qed

text \<open>
  The claim as worded fails: with the target "QUALCOMM Inc" missing, the call returns
  normally with the dictionary \<^verbatim>\<open>{'status': 'FAILED'}\<close>, which names no error.
\<close>

theorem create_relationship_returns_failed_counterexample:
  "fst (create_relationship reliable
       \<lparr>source_name = ''Apple Inc'', target_name = ''QUALCOMM Inc'', relationship_type = ''SUPPLY_COMPONENTS'',
        properties = [(''strength'', PFloat (17/20)), (''component_type'', PStr ''Modems'')]\<rparr>
       (snd (ingest_company_entity reliable (company 4295905573 ''Apple Inc'' (49/50)) fresh_client)))
     = Inr [(''status'', PStr ''FAILED'')]"
proof -
  let ?s = "snd (ingest_company_entity reliable (company 4295905573 ''Apple Inc'' (49/50)) fresh_client)"
  let ?r = "\<lparr>source_name = ''Apple Inc'', target_name = ''QUALCOMM Inc'', relationship_type = ''SUPPLY_COMPONENTS'',
        properties = [(''strength'', PFloat (17/20)), (''component_type'', PStr ''Modems'')]\<rparr>"
  have n: "nodes (store ?s) = [on_create ''python_etl'' 0 (company 4295905573 ''Apple Inc'' (49/50))]"
    by (simp add: ingest_company_entity_nodes merge_company_def)
  have h: "(\<forall>n\<in>set (nodes (store ?s)). name n \<noteq> source_name ?r)
         \<or> (\<forall>n\<in>set (nodes (store ?s)). name n \<noteq> target_name ?r)"
    by (simp add: n)
  have ident: "cypher_identifier (relationship_type ?r)"
    by (simp add: cypher_identifier_def ident_char_def)
  have q: "relationship_query reliable ?r (instant_of reliable (runs ?s)) (store ?s) = Inr ([], store ?s)"
    using h ident by (rule relationship_query_missing)
  have ok: "fault reliable (runs ?s) = None" by simp
  from execute_query_ok [where q = "relationship_query reliable ?r", OF ok q] show ?thesis
    by (simp add: create_relationship_def)
qed

section \<open>Relationships: one edge per pair and type\<close>

lemma sample_client_built:
  "snd (batch_ingest_companies reliable
          [company 4295906830 ''QCOM (Qualcomm Inc)'' (23/25),
           company 4295908001 ''ARM Holdings'' (89/100),
           company 4295908002 ''MediaTek'' (87/100)] fresh_client) = sample_client"
  by (simp add: batch_ingest_companies_ok sample_client_def merge_company_def fresh_client_def)

lemma upt_3: "[0..<3] = [0, 1, 2]"
  by (simp add: upt_rec)

lemma match_name_sample:
  "match_name ''ARM Holdings'' (nodes (store sample_client)) = [1]"
  "match_name ''MediaTek'' (nodes (store sample_client)) = [2]"
  "match_name ''Qualcomm Inc'' (nodes (store sample_client)) = []"
  by (simp_all add: match_name_def sample_client_def upt_3)

lemma create_supply_chain_relationships_ok1:
  assumes "fault env (runs s) = None"
  shows "create_supply_chain_relationships env [(a, b)] s =
     (Inr [(''relationships_created'', PInt 1), (''status'', PStr ''SUCCESS'')],
      s\<lparr>runs := Suc (runs s),
        store := (store s)\<lparr>edges := fold (merge_supply (instant_of env (runs s)))
             (List.product (match_name a (nodes (store s))) (match_name b (nodes (store s))))
             (edges (store s))\<rparr>\<rparr>)"
  using assms
  by (simp add: create_supply_chain_relationships_def execute_write_transaction_def session_run_def
        supply_query_def Let_def)

lemma sample_client_simps [simp]:
  "runs sample_client = 1" "edges (store sample_client) = []" "length (nodes (store sample_client)) = 3"
  "name (nodes (store sample_client) ! Suc 0) = ''ARM Holdings''"
  "name (nodes (store sample_client) ! 2) = ''MediaTek''"
  by (simp_all add: sample_client_def)

text \<open>
  Claim C4, evaluated on the code. Running \<^verbatim>\<open>create_supply_chain_relationships\<close> twice
  with the pair (ARM Holdings, MediaTek), at two different instants of the store clock,
  leaves two SUPPLY_COMPONENTS edges between the two nodes: \<^verbatim>\<open>created_date: datetime()\<close>
  is part of the MERGE pattern, so the edge of the first run does not match in the second.
\<close>

theorem supply_chain_twice_duplicates_edge:
  "length (edges_between ''SUPPLY_COMPONENTS'' ''ARM Holdings'' ''MediaTek''
     (store (snd (create_supply_chain_relationships reliable [(''ARM Holdings'', ''MediaTek'')]
        (snd (create_supply_chain_relationships reliable [(''ARM Holdings'', ''MediaTek'')] sample_client))))))
   = 2"
proof -
  let ?e1 = "\<lparr>src = 1, tgt = 2, rel_type = ''SUPPLY_COMPONENTS'', props = supply_props 1\<rparr>"
  let ?e2 = "\<lparr>src = 1, tgt = 2, rel_type = ''SUPPLY_COMPONENTS'', props = supply_props 2\<rparr>"
  let ?s1 = "\<lparr>store = \<lparr>nodes = nodes (store sample_client), edges = [?e1]\<rparr>,
              runs = 2, query_count = 1, slept = []\<rparr>"
  let ?s2 = "\<lparr>store = \<lparr>nodes = nodes (store sample_client), edges = [?e1, ?e2]\<rparr>,
              runs = 3, query_count = 1, slept = []\<rparr>"
  have step1: "snd (create_supply_chain_relationships reliable [(''ARM Holdings'', ''MediaTek'')] sample_client) = ?s1"
    by (simp add: create_supply_chain_relationships_ok1 match_name_sample merge_supply_def)
       (simp add: sample_client_def)
  have miss: "\<not> supply_hit 2 (1, 2) ?e1"
    by (simp add: supply_hit_def supply_props_def)
  have step2: "snd (create_supply_chain_relationships reliable [(''ARM Holdings'', ''MediaTek'')] ?s1) = ?s2"
    using miss by (simp add: create_supply_chain_relationships_ok1 match_name_sample merge_supply_def)
  show ?thesis
    unfolding step1 step2 by (simp add: edges_between_def)
qed

text \<open>
  The sibling path \<^verbatim>\<open>create_relationship\<close> merges on the type alone and sets its
  properties in ON CREATE / ON MATCH: run twice, it leaves one edge.
\<close>

lemma create_relationship_ok:
  assumes "fault env (runs s) = None"
    and "relationship_query env r (instant_of env (runs s)) (store s) = Inr (row # rows, g)"
  shows "create_relationship env r s =
           (Inr row, s\<lparr>runs := Suc (runs s), store := g, query_count := query_count s + 1\<rparr>)"
  using execute_query_ok [where q = "relationship_query env r", OF assms]
  by (simp add: create_relationship_def)

lemma create_relationship_twice_single_edge:
  "length (edges_between ''SUPPLY_COMPONENTS'' ''ARM Holdings'' ''MediaTek''
     (store (snd (create_relationship reliable
        \<lparr>source_name = ''ARM Holdings'', target_name = ''MediaTek'',
         relationship_type = ''SUPPLY_COMPONENTS'', properties = [(''confidence'', PFloat (9/10))]\<rparr>
        (snd (create_relationship reliable
           \<lparr>source_name = ''ARM Holdings'', target_name = ''MediaTek'',
            relationship_type = ''SUPPLY_COMPONENTS'', properties = [(''confidence'', PFloat (9/10))]\<rparr>
           sample_client)))))) = 1"
proof -
  let ?r = "\<lparr>source_name = ''ARM Holdings'', target_name = ''MediaTek'',
         relationship_type = ''SUPPLY_COMPONENTS'', properties = [(''confidence'', PFloat (9/10))]\<rparr>"
  let ?row = "[(''source'', PStr ''ARM Holdings''), (''target'', PStr ''MediaTek''),
               (''relationship_type'', PStr ''SUPPLY_COMPONENTS'')]"
  let ?e1 = "\<lparr>src = 1, tgt = 2, rel_type = ''SUPPLY_COMPONENTS'',
              props = [(''created_date'', PDateTime 1), (''confidence'', PFloat (9/10))]\<rparr>"
  let ?e2 = "\<lparr>src = 1, tgt = 2, rel_type = ''SUPPLY_COMPONENTS'',
              props = [(''last_updated'', PDateTime 2), (''confidence'', PFloat (9/10)),
                       (''created_date'', PDateTime 1)]\<rparr>"
  let ?g1 = "\<lparr>nodes = nodes (store sample_client), edges = [?e1]\<rparr>"
  let ?g2 = "\<lparr>nodes = nodes (store sample_client), edges = [?e2]\<rparr>"
  let ?s1 = "sample_client\<lparr>runs := Suc (runs sample_client), store := ?g1,
                           query_count := query_count sample_client + 1\<rparr>"
  have ident: "cypher_identifier ''SUPPLY_COMPONENTS''"
    by (simp add: cypher_identifier_def ident_char_def)
  have q1: "relationship_query reliable ?r (instant_of reliable (runs sample_client)) (store sample_client)
              = Inr ([?row], ?g1)"
    by (simp add: relationship_query_def ident match_name_sample merge_relationship_def
          set_prop_def add_props_def)
  have step1: "snd (create_relationship reliable ?r sample_client) = ?s1"
    using create_relationship_ok [where env = reliable, OF _ q1] by simp
  have q2: "relationship_query reliable ?r (instant_of reliable (runs ?s1)) (store ?s1) = Inr ([?row], ?g2)"
    by (simp add: relationship_query_def ident match_name_sample merge_relationship_def
          set_prop_def add_props_def)
  have step2: "store (snd (create_relationship reliable ?r ?s1)) = ?g2"
    using create_relationship_ok [where env = reliable, OF _ q2] by simp
  show ?thesis
    unfolding step1 step2 by (simp add: edges_between_def)
qed

section \<open>Relationships: the batch transaction\<close>

lemma session_run_supply_query:
  "session_run env (supply_query a b) s =
     (case fault env (runs s) of
        Some e \<Rightarrow> (Inl e, s\<lparr>runs := Suc (runs s)\<rparr>)
      | None \<Rightarrow>
          (Inr [], s\<lparr>runs := Suc (runs s),
                    store := (store s)\<lparr>edges := fold (merge_supply (instant_of env (runs s)))
                       (List.product (match_name a (nodes (store s))) (match_name b (nodes (store s))))
                       (edges (store s))\<rparr>\<rparr>))"
  by (simp add: session_run_def supply_query_def Let_def split: option.splits)

lemma merge_supply_mono: "set es \<subseteq> set (merge_supply now ij es)"
  by (auto simp: merge_supply_def)

lemma fold_merge_supply_mono: "set es \<subseteq> set (fold (merge_supply now) ijs es)"
proof (induction ijs arbitrary: es)
  case Nil
  show ?case by simp
next
  case (Cons ij ijs)
  have "set es \<subseteq> set (merge_supply now ij es)" by (rule merge_supply_mono)
  also have "\<dots> \<subseteq> set (fold (merge_supply now) ijs (merge_supply now ij es))" by (rule Cons.IH)
  finally show ?case by simp
qed

lemma merge_supply_edge:
  "\<exists>e\<in>set (merge_supply now ij es). src e = fst ij \<and> tgt e = snd ij \<and> rel_type e = ''SUPPLY_COMPONENTS''"
  by (auto simp: merge_supply_def list_ex_iff supply_hit_def)

lemma fold_merge_supply_edge:
  "ij \<in> set ijs \<Longrightarrow>
   \<exists>e\<in>set (fold (merge_supply now) ijs es). src e = fst ij \<and> tgt e = snd ij \<and> rel_type e = ''SUPPLY_COMPONENTS''"
proof (induction ijs arbitrary: es)
  case Nil
  then show ?case by simp
next
  case (Cons x ijs)
  show ?case
  proof (cases "ij = x")
    case True
    obtain e where e: "e \<in> set (merge_supply now ij es)"
      "src e = fst ij \<and> tgt e = snd ij \<and> rel_type e = ''SUPPLY_COMPONENTS''"
      using merge_supply_edge [of now ij es] by blast
    have "e \<in> set (fold (merge_supply now) ijs (merge_supply now ij es))"
      using e(1) fold_merge_supply_mono by blast
    with e(2) True show ?thesis by auto
  next
    case False
    with Cons.prems have "ij \<in> set ijs" by simp
    from Cons.IH [OF this] show ?thesis by simp
  qed
qed

lemma tx_function_supply:
  assumes "tx_function env (map (\<lambda>(supplier, customer). supply_query supplier customer) pairs) s = (res, s')"
  shows "nodes (store s') = nodes (store s)
       \<and> ((\<exists>k<length pairs. fault env (runs s + k) \<noteq> None) \<longrightarrow> (\<exists>e. res = Inl e))
       \<and> ((\<forall>k<length pairs. fault env (runs s + k) = None) \<longrightarrow>
            (\<exists>rs. res = Inr rs) \<and> set (edges (store s)) \<subseteq> set (edges (store s'))
            \<and> (\<forall>(a, b)\<in>set pairs. \<forall>i\<in>set (match_name a (nodes (store s))).
                  \<forall>j\<in>set (match_name b (nodes (store s))).
                    \<exists>e\<in>set (edges (store s')). src e = i \<and> tgt e = j \<and> rel_type e = ''SUPPLY_COMPONENTS''))"
  using assms
proof (induction pairs arbitrary: s res s')
  case Nil
  then show ?case by auto
next
  case (Cons p ps)
  obtain a b where p: "p = (a, b)" by (cases p)
  show ?case
  proof (cases "fault env (runs s)")
    case (Some e)
    with Cons.prems p have "res = Inl e" "s' = s\<lparr>runs := Suc (runs s)\<rparr>"
      by (simp_all add: session_run_supply_query)
    moreover have "\<not> (\<forall>k<length (p # ps). fault env (runs s + k) = None)"
      using Some by (auto intro: exI [of _ 0])
    ultimately show ?thesis by simp
  next
    case None
    let ?es1 = "fold (merge_supply (instant_of env (runs s)))
                  (List.product (match_name a (nodes (store s))) (match_name b (nodes (store s))))
                  (edges (store s))"
    let ?s1 = "s\<lparr>runs := Suc (runs s), store := (store s)\<lparr>edges := ?es1\<rparr>\<rparr>"
    obtain res1 s1' where rest:
      "tx_function env (map (\<lambda>(supplier, customer). supply_query supplier customer) ps) ?s1 = (res1, s1')"
      by (cases "tx_function env (map (\<lambda>(supplier, customer). supply_query supplier customer) ps) ?s1")
    from Cons.prems p None rest have res: "res = (case res1 of Inl e \<Rightarrow> Inl e | Inr rs \<Rightarrow> Inr ([] # rs))"
      and s': "s' = s1'"
      by (auto simp: session_run_supply_query split: sum.splits)
    note IH = Cons.IH [OF rest]
    have nodes1: "nodes (store ?s1) = nodes (store s)" by simp
    have runs1: "\<And>k. runs ?s1 + k = runs s + Suc k" by simp
    have A: "nodes (store s') = nodes (store s)"
      using IH s' by simp
    have B: "(\<exists>k<length (p # ps). fault env (runs s + k) \<noteq> None) \<longrightarrow> (\<exists>e. res = Inl e)"
    proof
      assume "\<exists>k<length (p # ps). fault env (runs s + k) \<noteq> None"
      then obtain k where k: "k < Suc (length ps)" "fault env (runs s + k) \<noteq> None" by auto
      with None obtain k' where "k = Suc k'" by (cases k) auto
      with k have "\<exists>k<length ps. fault env (runs ?s1 + k) \<noteq> None"
        by (auto simp only: runs1)
      with IH obtain e where "res1 = Inl e" by blast
      then show "\<exists>e. res = Inl e" by (simp add: res)
    qed
    have C: "(\<forall>k<length (p # ps). fault env (runs s + k) = None) \<longrightarrow>
            (\<exists>rs. res = Inr rs) \<and> set (edges (store s)) \<subseteq> set (edges (store s'))
            \<and> (\<forall>(a, b)\<in>set (p # ps). \<forall>i\<in>set (match_name a (nodes (store s))).
                  \<forall>j\<in>set (match_name b (nodes (store s))).
                    \<exists>e\<in>set (edges (store s')). src e = i \<and> tgt e = j \<and> rel_type e = ''SUPPLY_COMPONENTS'')"
    proof
      assume all: "\<forall>k<length (p # ps). fault env (runs s + k) = None"
      then have "\<forall>k<length ps. fault env (runs s + Suc k) = None"
        by (metis Suc_less_eq length_Cons)
      then have "\<forall>k<length ps. fault env (runs ?s1 + k) = None"
        by (simp only: runs1)
      with IH have r1: "\<exists>rs. res1 = Inr rs"
        and sub: "set (edges (store ?s1)) \<subseteq> set (edges (store s1'))"
        and ed: "\<forall>(a, b)\<in>set ps. \<forall>i\<in>set (match_name a (nodes (store ?s1))).
                  \<forall>j\<in>set (match_name b (nodes (store ?s1))).
                    \<exists>e\<in>set (edges (store s1')). src e = i \<and> tgt e = j \<and> rel_type e = ''SUPPLY_COMPONENTS''"
        by blast+
      have e1: "edges (store ?s1) = ?es1" by simp
      have c1: "\<exists>rs. res = Inr rs" using r1 by (auto simp: res)
      have c2: "set (edges (store s)) \<subseteq> set (edges (store s'))"
        using fold_merge_supply_mono sub unfolding e1 s' by blast
      have head: "\<forall>i\<in>set (match_name a (nodes (store s))). \<forall>j\<in>set (match_name b (nodes (store s))).
                    \<exists>e\<in>set (edges (store s')). src e = i \<and> tgt e = j \<and> rel_type e = ''SUPPLY_COMPONENTS''"
      proof (intro ballI)
        fix i j
        assume "i \<in> set (match_name a (nodes (store s)))" "j \<in> set (match_name b (nodes (store s)))"
        then have "(i, j) \<in> set (List.product (match_name a (nodes (store s))) (match_name b (nodes (store s))))"
          by simp
        from fold_merge_supply_edge [OF this, of "instant_of env (runs s)" "edges (store s)"]
        obtain e where "e \<in> set ?es1" "src e = i \<and> tgt e = j \<and> rel_type e = ''SUPPLY_COMPONENTS''"
          by auto
        with sub show "\<exists>e\<in>set (edges (store s')). src e = i \<and> tgt e = j \<and> rel_type e = ''SUPPLY_COMPONENTS''"
          unfolding e1 s' by blast
      qed
      have c3: "\<forall>(a, b)\<in>set (p # ps). \<forall>i\<in>set (match_name a (nodes (store s))).
                  \<forall>j\<in>set (match_name b (nodes (store s))).
                    \<exists>e\<in>set (edges (store s')). src e = i \<and> tgt e = j \<and> rel_type e = ''SUPPLY_COMPONENTS''"
        using head ed unfolding nodes1 s' p by simp
      from c1 c2 c3 show "(\<exists>rs. res = Inr rs) \<and> set (edges (store s)) \<subseteq> set (edges (store s'))
            \<and> (\<forall>(a, b)\<in>set (p # ps). \<forall>i\<in>set (match_name a (nodes (store s))).
                  \<forall>j\<in>set (match_name b (nodes (store s))).
                    \<exists>e\<in>set (edges (store s')). src e = i \<and> tgt e = j \<and> rel_type e = ''SUPPLY_COMPONENTS'')"
        by blast
    qed
    from A B C show ?thesis by blast
  qed
qed

lemma edges_between_nonempty:
  assumes "e \<in> set (edges g)" and "src e = i" and "tgt e = j" and "rel_type e = t"
    and "i \<in> set (match_name a (nodes g))" and "j \<in> set (match_name b (nodes g))"
  shows "edges_between t a b g \<noteq> []"
proof -
  from assms have "e \<in> set (edges_between t a b g)"
    by (simp add: edges_between_def set_match_name)
  then show ?thesis by auto
qed

lemma edges_between_missing:
  assumes "(\<forall>n\<in>set (nodes g). name n \<noteq> a) \<or> (\<forall>n\<in>set (nodes g). name n \<noteq> b)"
  shows "edges_between t a b g = []"
  using assms by (auto simp: edges_between_def filter_empty_conv)

text \<open>
  Claim C6, as the code has it. \<^verbatim>\<open>create_supply_chain_relationships\<close> runs one statement
  per pair, in order, in one transaction, and never touches the nodes. If the store raises
  at any of the statements, the whole transaction is rolled back: the store is as before
  and the result is an ERROR dictionary. If it raises at none, the transaction commits and
  the result is SUCCESS with \<open>relationships_created\<close> the number of pairs; the edges
  present before are kept, every pair whose two names both have a node has an edge, and a
  pair with a missing endpoint is passed over without error and has none.
\<close>

theorem supply_chain_commit_or_rollback:
  "nodes (store (snd (create_supply_chain_relationships env pairs s))) = nodes (store s)
   \<and> ((\<exists>k<length pairs. fault env (runs s + k) \<noteq> None) \<longrightarrow>
         store (snd (create_supply_chain_relationships env pairs s)) = store s
         \<and> (\<exists>e. fst (create_supply_chain_relationships env pairs s) = Inr (error_result e)))
   \<and> ((\<forall>k<length pairs. fault env (runs s + k) = None) \<longrightarrow>
         fst (create_supply_chain_relationships env pairs s)
           = Inr [(''relationships_created'', PInt (int (length pairs))), (''status'', PStr ''SUCCESS'')]
         \<and> set (edges (store s)) \<subseteq> set (edges (store (snd (create_supply_chain_relationships env pairs s))))
         \<and> (\<forall>(a, b)\<in>set pairs.
               if (\<exists>n\<in>set (nodes (store s)). name n = a) \<and> (\<exists>n\<in>set (nodes (store s)). name n = b)
               then edges_between ''SUPPLY_COMPONENTS'' a b
                      (store (snd (create_supply_chain_relationships env pairs s))) \<noteq> []
               else edges_between ''SUPPLY_COMPONENTS'' a b
                      (store (snd (create_supply_chain_relationships env pairs s))) = []))"
proof -
  let ?qs = "map (\<lambda>(supplier, customer). supply_query supplier customer) pairs"
  let ?r = "create_supply_chain_relationships env pairs s"
  obtain res s' where tx: "tx_function env ?qs s = (res, s')"
    by (cases "tx_function env ?qs s")
  note T = tx_function_supply [OF tx]
  have r: "?r = (case res of
                   Inr results \<Rightarrow> (Inr [(''relationships_created'', PInt (int (length pairs))),
                                          (''status'', PStr ''SUCCESS'')], s')
                 | Inl e \<Rightarrow> (Inr (error_result e), s'\<lparr>store := store s\<rparr>))"
    by (simp add: create_supply_chain_relationships_def execute_write_transaction_def tx split: sum.splits)
  have A: "nodes (store (snd ?r)) = nodes (store s)"
    using T by (simp add: r split: sum.splits)
  have B: "(\<exists>k<length pairs. fault env (runs s + k) \<noteq> None) \<longrightarrow>
         store (snd ?r) = store s \<and> (\<exists>e. fst ?r = Inr (error_result e))"
  proof
    assume "\<exists>k<length pairs. fault env (runs s + k) \<noteq> None"
    with T obtain e where "res = Inl e" by blast
    then show "store (snd ?r) = store s \<and> (\<exists>e. fst ?r = Inr (error_result e))"
      by (auto simp: r)
  qed
  have C: "(\<forall>k<length pairs. fault env (runs s + k) = None) \<longrightarrow>
         fst ?r = Inr [(''relationships_created'', PInt (int (length pairs))), (''status'', PStr ''SUCCESS'')]
         \<and> set (edges (store s)) \<subseteq> set (edges (store (snd ?r)))
         \<and> (\<forall>(a, b)\<in>set pairs.
               if (\<exists>n\<in>set (nodes (store s)). name n = a) \<and> (\<exists>n\<in>set (nodes (store s)). name n = b)
               then edges_between ''SUPPLY_COMPONENTS'' a b (store (snd ?r)) \<noteq> []
               else edges_between ''SUPPLY_COMPONENTS'' a b (store (snd ?r)) = [])"
  proof
    assume ok: "\<forall>k<length pairs. fault env (runs s + k) = None"
    with T obtain rs where res: "res = Inr rs" by blast
    have snd_r: "snd ?r = s'" by (simp add: r res)
    have c1: "fst ?r = Inr [(''relationships_created'', PInt (int (length pairs))), (''status'', PStr ''SUCCESS'')]"
      by (simp add: r res)
    have c2: "set (edges (store s)) \<subseteq> set (edges (store (snd ?r)))"
      using T ok by (simp add: snd_r)
    have c3: "\<forall>(a, b)\<in>set pairs.
               if (\<exists>n\<in>set (nodes (store s)). name n = a) \<and> (\<exists>n\<in>set (nodes (store s)). name n = b)
               then edges_between ''SUPPLY_COMPONENTS'' a b (store (snd ?r)) \<noteq> []
               else edges_between ''SUPPLY_COMPONENTS'' a b (store (snd ?r)) = []"
    proof (clarify)
      fix a b
      assume ab: "(a, b) \<in> set pairs"
      show "if (\<exists>n\<in>set (nodes (store s)). name n = a) \<and> (\<exists>n\<in>set (nodes (store s)). name n = b)
            then edges_between ''SUPPLY_COMPONENTS'' a b (store (snd ?r)) \<noteq> []
            else edges_between ''SUPPLY_COMPONENTS'' a b (store (snd ?r)) = []"
      proof (cases "(\<exists>n\<in>set (nodes (store s)). name n = a) \<and> (\<exists>n\<in>set (nodes (store s)). name n = b)")
        case True
        then have "match_name a (nodes (store s)) \<noteq> []" "match_name b (nodes (store s)) \<noteq> []"
          by (auto simp: match_name_empty)
        then obtain i j where ij: "i \<in> set (match_name a (nodes (store s)))"
          "j \<in> set (match_name b (nodes (store s)))"
          by (meson last_in_set)
        with T ok ab obtain e where e: "e \<in> set (edges (store s'))"
          "src e = i \<and> tgt e = j \<and> rel_type e = ''SUPPLY_COMPONENTS''"
          by blast
        have "edges_between ''SUPPLY_COMPONENTS'' a b (store s') \<noteq> []"
          using e ij A by (intro edges_between_nonempty [of e _ i j]) (simp_all add: snd_r)
        with True show ?thesis by (simp add: snd_r)
      next
        case False
        then have "edges_between ''SUPPLY_COMPONENTS'' a b (store (snd ?r)) = []"
          by (intro edges_between_missing) (auto simp: A)
        with False show ?thesis by simp
      qed
    qed
    from c1 c2 c3 show "fst ?r = Inr [(''relationships_created'', PInt (int (length pairs))), (''status'', PStr ''SUCCESS'')]
         \<and> set (edges (store s)) \<subseteq> set (edges (store (snd ?r)))
         \<and> (\<forall>(a, b)\<in>set pairs.
               if (\<exists>n\<in>set (nodes (store s)). name n = a) \<and> (\<exists>n\<in>set (nodes (store s)). name n = b)
               then edges_between ''SUPPLY_COMPONENTS'' a b (store (snd ?r)) \<noteq> []
               else edges_between ''SUPPLY_COMPONENTS'' a b (store (snd ?r)) = [])"
      by blast
  qed
  from A B C show ?thesis by blast
qed

theorem supply_chain_commit_or_rollback_witness:
  "store (snd (create_supply_chain_relationships fails_second
       [(''ARM Holdings'', ''MediaTek''), (''ARM Holdings'', ''QCOM (Qualcomm Inc)'')] sample_client))
     = store sample_client
   \<and> fst (create_supply_chain_relationships reliable
       [(''ARM Holdings'', ''MediaTek''), (''ARM Holdings'', ''QCOM (Qualcomm Inc)'')] sample_client)
     = Inr [(''relationships_created'', PInt 2), (''status'', PStr ''SUCCESS'')]
   \<and> edges_between ''SUPPLY_COMPONENTS'' ''ARM Holdings'' ''MediaTek''
       (store (snd (create_supply_chain_relationships reliable
          [(''ARM Holdings'', ''MediaTek''), (''ARM Holdings'', ''QCOM (Qualcomm Inc)'')] sample_client))) \<noteq> []"
proof -
  let ?pairs = "[(''ARM Holdings'', ''MediaTek''), (''ARM Holdings'', ''QCOM (Qualcomm Inc)'')]"
  have bad: "\<exists>k<length ?pairs. fault fails_second (runs sample_client + k) \<noteq> None"
    by (rule exI [of _ 1]) (simp add: fails_second_def)
  have good: "\<forall>k<length ?pairs. fault reliable (runs sample_client + k) = None"
    by simp
  have names: "(\<exists>n\<in>set (nodes (store sample_client)). name n = ''ARM Holdings'')
             \<and> (\<exists>n\<in>set (nodes (store sample_client)). name n = ''MediaTek'')"
    by (simp add: sample_client_def)
  have "store (snd (create_supply_chain_relationships fails_second ?pairs sample_client)) = store sample_client"
    using supply_chain_commit_or_rollback [of fails_second ?pairs sample_client] bad by blast
  moreover have "fst (create_supply_chain_relationships reliable ?pairs sample_client)
     = Inr [(''relationships_created'', PInt (int (length ?pairs))), (''status'', PStr ''SUCCESS'')]"
    using supply_chain_commit_or_rollback [of reliable ?pairs sample_client] good by blast
  moreover have "\<forall>(a, b)\<in>set ?pairs.
               if (\<exists>n\<in>set (nodes (store sample_client)). name n = a) \<and> (\<exists>n\<in>set (nodes (store sample_client)). name n = b)
               then edges_between ''SUPPLY_COMPONENTS'' a b
                      (store (snd (create_supply_chain_relationships reliable ?pairs sample_client))) \<noteq> []
               else edges_between ''SUPPLY_COMPONENTS'' a b
                      (store (snd (create_supply_chain_relationships reliable ?pairs sample_client))) = []"
    using supply_chain_commit_or_rollback [of reliable ?pairs sample_client] good by blast
  then have "edges_between ''SUPPLY_COMPONENTS'' ''ARM Holdings'' ''MediaTek''
       (store (snd (create_supply_chain_relationships reliable ?pairs sample_client))) \<noteq> []"
    using names by auto
  ultimately show ?thesis by simp
qed

text \<open>
  The claim as worded fails: with the pairs (ARM Holdings, Qualcomm Inc) and (ARM Holdings,
  MediaTek) of \<^verbatim>\<open>create_sample_data\<close>, where no node is named "Qualcomm Inc", the call
  reports SUCCESS, the second edge is in the store and the first is not.
\<close>

theorem supply_chain_partial_edges_counterexample:
  "fst (create_supply_chain_relationships reliable
       [(''ARM Holdings'', ''Qualcomm Inc''), (''ARM Holdings'', ''MediaTek'')] sample_client)
     = Inr [(''relationships_created'', PInt 2), (''status'', PStr ''SUCCESS'')]
   \<and> edges_between ''SUPPLY_COMPONENTS'' ''ARM Holdings'' ''Qualcomm Inc''
       (store (snd (create_supply_chain_relationships reliable
          [(''ARM Holdings'', ''Qualcomm Inc''), (''ARM Holdings'', ''MediaTek'')] sample_client))) = []
   \<and> length (edges_between ''SUPPLY_COMPONENTS'' ''ARM Holdings'' ''MediaTek''
       (store (snd (create_supply_chain_relationships reliable
          [(''ARM Holdings'', ''Qualcomm Inc''), (''ARM Holdings'', ''MediaTek'')] sample_client)))) = 1"
proof -
  let ?pairs = "[(''ARM Holdings'', ''Qualcomm Inc''), (''ARM Holdings'', ''MediaTek'')]"
  let ?e = "\<lparr>src = 1, tgt = 2, rel_type = ''SUPPLY_COMPONENTS'', props = supply_props 2\<rparr>"
  have run: "create_supply_chain_relationships reliable ?pairs sample_client
     = (Inr [(''relationships_created'', PInt 2), (''status'', PStr ''SUCCESS'')],
        \<lparr>store = \<lparr>nodes = nodes (store sample_client), edges = [?e]\<rparr>,
         runs = 3, query_count = 1, slept = []\<rparr>)"
    by (simp add: create_supply_chain_relationships_def execute_write_transaction_def
          session_run_supply_query match_name_sample merge_supply_def)
       (simp add: sample_client_def numeral_2_eq_2)
  show ?thesis
    unfolding run by (simp add: edges_between_def)
qed

end
